theory Spec2Isabelle
  imports Complex_Main
begin

section \<open>The grid abstraction\<close>

text \<open>
  The grids of \<^verbatim>\<open>d8_methods.cpp\<close> (\<^verbatim>\<open>float_2d\<close>, \<^verbatim>\<open>int_2d\<close>, \<^verbatim>\<open>bool_2d\<close>) are
  instances of one container declared in \<^verbatim>\<open>data_structures.h\<close>. Dimensions are sizes
  (\<open>nat\<close>), coordinates are the \<^verbatim>\<open>int\<close> loop variables of the source. The cells are a
  function of the coordinate pair; only the cells inside the grid are storage of the
  program, and every function below reads and writes a cell only after \<open>in_grid\<close> or
  inside a loop over \<open>0 \<le> x < width\<close>, \<open>0 \<le> y < height\<close>. The exceptions are in
  \<open>find_watersheds\<close>: the two seeding loops (see there), and the cell of the popped entry,
  which the invariant \<open>ws_inv\<close> shows to be inside the grid.

  Cell values of a \<^verbatim>\<open>float_2d\<close> are modelled as \<open>real\<close>: comparison, copying and the
  arithmetic of the source are those of the reals, without rounding, infinities or NaN.
\<close>

record 'a array2d =
  width :: nat
  height :: nat
  cellsize :: real
  no_data :: 'a
  data :: "int \<times> int \<Rightarrow> 'a"

text \<open>Modelled from the spec: \<^verbatim>\<open>in_grid(x,y)\<close>, the bounds test of the grid
  (\<^verbatim>\<open>data_structures.h\<close> is not part of the sources).\<close>

definition in_grid :: "'a array2d \<Rightarrow> int \<Rightarrow> int \<Rightarrow> bool" where
  "in_grid g x y \<longleftrightarrow> 0 \<le> x \<and> 0 \<le> y \<and> x < int (width g) \<and> y < int (height g)"

text \<open>Indexed read \<^verbatim>\<open>g(x,y)\<close> and indexed write \<^verbatim>\<open>g(x,y)=v\<close>.\<close>

definition cell :: "'a array2d \<Rightarrow> int \<Rightarrow> int \<Rightarrow> 'a" where
  "cell g x y = data g (x, y)"

definition put :: "'a array2d \<Rightarrow> int \<Rightarrow> int \<Rightarrow> 'a \<Rightarrow> 'a array2d" where
  "put g x y v = g\<lparr>data := (data g)((x, y) := v)\<rparr>"

text \<open>Modelled from the spec: \<^verbatim>\<open>copyprops(other)\<close> adopts the other grid's dimensions
  and cell size, and \<^verbatim>\<open>init(value)\<close> fills all cells.\<close>

definition copyprops :: "'a array2d \<Rightarrow> 'b array2d \<Rightarrow> 'a array2d" where
  "copyprops g other = g\<lparr>width := width other, height := height other, cellsize := cellsize other\<rparr>"

definition init :: "'a array2d \<Rightarrow> 'a \<Rightarrow> 'a array2d" where
  "init g v = g\<lparr>data := (\<lambda>_. v)\<rparr>"

text \<open>The scan \<^verbatim>\<open>for(x=0;x<width;x++) for(y=0;y<height;y++) body\<close>, in the order of the
  sequential program.\<close>

definition for_xy :: "nat \<Rightarrow> nat \<Rightarrow> (int \<Rightarrow> int \<Rightarrow> 's \<Rightarrow> 's) \<Rightarrow> 's \<Rightarrow> 's" where
  "for_xy w h body s = fold (\<lambda>x. fold (\<lambda>y. body x y) (map int [0..<h])) (map int [0..<w]) s"

section \<open>Terrain attributes\<close>

record terrain_attribs =
  rise_over_run :: real
  aspect :: real
  curvature :: real
  profile_curvature :: real
  planform_curvature :: real

text \<open>The library function \<^verbatim>\<open>atan2\<close> on the reals.\<close>

definition atan2 :: "real \<Rightarrow> real \<Rightarrow> real" where
  "atan2 y x =
     (if 0 < x then arctan (y / x)
      else if x < 0 \<and> 0 \<le> y then arctan (y / x) + pi
      else if x < 0 then arctan (y / x) - pi
      else if 0 < y then pi / 2
      else if y < 0 then - (pi / 2)
      else 0)"

text \<open>One cell of the 3 by 3 window around \<open>(x0, y0)\<close>: the centre's value unless the
  neighbour is in the grid, and again the centre's value when that is no-data.\<close>

definition window :: "real array2d \<Rightarrow> int \<Rightarrow> int \<Rightarrow> int \<Rightarrow> int \<Rightarrow> real" where
  "window elevations x0 y0 x y =
     (let e = cell elevations x0 y0;
          a = (if in_grid elevations x y then cell elevations x y else e)
      in if a = no_data elevations then e else a)"

definition d8_terrain_attrib_helper :: "real array2d \<Rightarrow> int \<Rightarrow> int \<Rightarrow> terrain_attribs" where
  "d8_terrain_attrib_helper elevations x0 y0 =
     (let a = window elevations x0 y0 (x0 - 1) (y0 - 1) * 0.3048;
          d = window elevations x0 y0 (x0 - 1) y0 * 0.3048;
          g = window elevations x0 y0 (x0 - 1) (y0 + 1) * 0.3048;
          b = window elevations x0 y0 x0 (y0 - 1) * 0.3048;
          h = window elevations x0 y0 x0 (y0 + 1) * 0.3048;
          c = window elevations x0 y0 (x0 + 1) (y0 - 1) * 0.3048;
          f = window elevations x0 y0 (x0 + 1) y0 * 0.3048;
          i = window elevations x0 y0 (x0 + 1) (y0 + 1) * 0.3048;
          e = cell elevations x0 y0 * 0.3048;
          dzdx = ((c + 2 * f + i) - (a + 2 * d + g)) / 8;
          dzdy = ((g + 2 * h + i) - (a + 2 * b + c)) / 8;
          aspect0 = 180 / pi * atan2 dzdy (- dzdx);
          aspect1 = (if aspect0 < 0 then 90 - aspect0
                     else if aspect0 > 90 then 360 - aspect0 + 90
                     else 90 - aspect0);
          dzdx1 = dzdx / cellsize elevations;
          dzdy1 = dzdy / cellsize elevations;
          ror = sqrt (dzdx1 * dzdx1 + dzdy1 * dzdy1)
      in if ror = 0
         then \<lparr>rise_over_run = ror, aspect = - 1, curvature = 0,
               profile_curvature = 0, planform_curvature = 0\<rparr>
         else
           let L = cellsize elevations;
               D = ((d + f) / 2 - e) / L / L;
               E = ((b + h) / 2 - e) / L / L;
               F = (- a + c + g - i) / 4 / L / L;
               G = (- d + f) / 2 / L;
               H = (b - h) / 2 / L;
               curv = - 2 * (D + E) * 100
           in if G = 0 \<and> H = 0
              then \<lparr>rise_over_run = ror, aspect = aspect1, curvature = curv,
                    profile_curvature = 0, planform_curvature = 0\<rparr>
              else \<lparr>rise_over_run = ror, aspect = aspect1, curvature = curv,
                    profile_curvature =
                      2 * (D * G * G + E * H * H + F * G * H) / (G * G + H * H) * 100,
                    planform_curvature =
                      - 2 * (D * H * H + E * G * G - F * G * H) / (G * G + H * H) * 100\<rparr>)"

text \<open>Modelled from the spec: the attribute selectors \<^verbatim>\<open>TATTRIB_*\<close> of
  \<^verbatim>\<open>d8_methods.h\<close> (not part of the sources). The parameter of the source is an
  \<^verbatim>\<open>int\<close> and its \<^verbatim>\<open>switch\<close> has no default: \<open>TATTRIB_unlisted\<close> stands for every value
  that is none of the eight selectors.\<close>

datatype tattrib =
    TATTRIB_CURVATURE
  | TATTRIB_PLANFORM_CURVATURE
  | TATTRIB_PROFILE_CURVATURE
  | TATTRIB_ASPECT
  | TATTRIB_SLOPE_RISERUN
  | TATTRIB_SLOPE_PERCENT
  | TATTRIB_SLOPE_RADIAN
  | TATTRIB_SLOPE_DEGREE
  | TATTRIB_unlisted

text \<open>The body of the scan of \<open>d8_terrain_attribute\<close> for the cell \<open>(x, y)\<close>.\<close>

definition attrib_cell ::
  "real array2d \<Rightarrow> tattrib \<Rightarrow> int \<Rightarrow> int \<Rightarrow> real array2d \<Rightarrow> real array2d" where
  "attrib_cell elevations attrib x y attribs =
     (if cell elevations x y = no_data elevations then put attribs x y (no_data attribs)
      else
        let r = d8_terrain_attrib_helper elevations x y in
        case attrib of
          TATTRIB_CURVATURE \<Rightarrow> put attribs x y (curvature r)
        | TATTRIB_PLANFORM_CURVATURE \<Rightarrow> put attribs x y (planform_curvature r)
        | TATTRIB_PROFILE_CURVATURE \<Rightarrow> put attribs x y (profile_curvature r)
        | TATTRIB_ASPECT \<Rightarrow> put attribs x y (aspect r)
        | TATTRIB_SLOPE_RISERUN \<Rightarrow> put attribs x y (rise_over_run r)
        | TATTRIB_SLOPE_PERCENT \<Rightarrow> put attribs x y (rise_over_run r * 100)
        | TATTRIB_SLOPE_RADIAN \<Rightarrow> put attribs x y (arctan (rise_over_run r))
        | TATTRIB_SLOPE_DEGREE \<Rightarrow> put attribs x y (arctan (rise_over_run r) * 180 / pi)
        | TATTRIB_unlisted \<Rightarrow> attribs)"

text \<open>\<open>attribs\<close> is the output parameter of the source: the grid as the caller passes
  it in, the result the grid as the function leaves it.\<close>

definition d8_terrain_attribute ::
  "real array2d \<Rightarrow> real array2d \<Rightarrow> tattrib \<Rightarrow> real array2d" where
  "d8_terrain_attribute elevations attribs attrib =
     (let attribs1 = copyprops attribs elevations;
          attribs2 = attribs1\<lparr>no_data := - 99999\<rparr>
      in for_xy (width elevations) (height elevations)
           (attrib_cell elevations attrib) attribs2)"

section \<open>SPI and CTI\<close>

text \<open>\<^verbatim>\<open>exit(-1)\<close> after the diagnostic: the process ends with the exit status, the
  message goes to the diagnostic sink.\<close>

datatype fatal = Exit int string

definition spi_cell ::
  "real array2d \<Rightarrow> real array2d \<Rightarrow> int \<Rightarrow> int \<Rightarrow> real array2d \<Rightarrow> real array2d" where
  "spi_cell flow_accumulation percent_slope x y result =
     (if cell flow_accumulation x y = no_data flow_accumulation
         \<or> cell percent_slope x y = no_data percent_slope
      then put result x y (no_data result)
      else put result x y
             (ln (cellsize flow_accumulation * (cell flow_accumulation x y + 0.001)
                  * ((cell percent_slope x y / 100) + 0.001))))"

definition cti_cell ::
  "real array2d \<Rightarrow> real array2d \<Rightarrow> int \<Rightarrow> int \<Rightarrow> real array2d \<Rightarrow> real array2d" where
  "cti_cell flow_accumulation percent_slope x y result =
     (if cell flow_accumulation x y = no_data flow_accumulation
         \<or> cell percent_slope x y = no_data percent_slope
      then put result x y (no_data result)
      else put result x y
             (ln (cellsize flow_accumulation * (cell flow_accumulation x y + 0.001)
                  / ((cell percent_slope x y / 100) + 0.001))))"

text \<open>The result is \<open>Inl\<close> when the process is ended by \<^verbatim>\<open>exit\<close>, with the output
  parameter as it is at that moment, and \<open>Inr\<close> with the output parameter when the
  function returns.\<close>

definition d8_SPI ::
  "real array2d \<Rightarrow> real array2d \<Rightarrow> real array2d \<Rightarrow> fatal \<times> real array2d + real array2d" where
  "d8_SPI flow_accumulation percent_slope result =
     (if width flow_accumulation \<noteq> width percent_slope
         \<or> height flow_accumulation \<noteq> height percent_slope
      then Inl (Exit (- 1)
                  ''Couldn't calculate SPI! The input matricies were of unequal dimensions!'',
                result)
      else
        let result1 = copyprops result flow_accumulation;
            result2 = result1\<lparr>no_data := - 1\<rparr>
        in Inr (for_xy (width flow_accumulation) (height flow_accumulation)
                  (spi_cell flow_accumulation percent_slope) result2))"

definition d8_CTI ::
  "real array2d \<Rightarrow> real array2d \<Rightarrow> real array2d \<Rightarrow> fatal \<times> real array2d + real array2d" where
  "d8_CTI flow_accumulation percent_slope result =
     (if width flow_accumulation \<noteq> width percent_slope
         \<or> height flow_accumulation \<noteq> height percent_slope
      then Inl (Exit (- 1)
                  ''Couldn't calculate CTI! The input matricies were of unequal dimensions!'',
                result)
      else
        let result1 = copyprops result flow_accumulation;
            result2 = result1\<lparr>no_data := - 1\<rparr>
        in Inr (for_xy (width flow_accumulation) (height flow_accumulation)
                  (cti_cell flow_accumulation percent_slope) result2))"

section \<open>Watershed labels by priority flood\<close>

text \<open>Modelled from the spec: a cell entry of the frontier structures carries
  \<open>(x, y, elevation at the time of queueing)\<close> (\<^verbatim>\<open>grid_cellz\<close> of
  \<^verbatim>\<open>data_structures.h\<close>, not part of the sources).\<close>

record grid_cellz =
  cx :: int
  cy :: int
  cz :: real

text \<open>Modelled from the spec: the offset tables \<^verbatim>\<open>dx\<close>, \<^verbatim>\<open>dy\<close> of the eight
  grid-adjacent neighbours (\<^verbatim>\<open>utility.h\<close>, not part of the sources), indexed from 1 to
  8; index 0 is the cell itself. No theorem below depends on the order of the eight.\<close>

definition dx :: "nat \<Rightarrow> int" where
  "dx n = [0, - 1, - 1, 0, 1, 1, 1, 0, - 1] ! n"

definition dy :: "nat \<Rightarrow> int" where
  "dy n = [0, 0, - 1, - 1, - 1, 0, 1, 1, 1] ! n"

text \<open>The open queue \<^verbatim>\<open>grid_cellz_pq\<close> is a \<^verbatim>\<open>std::priority_queue\<close> whose comparison is
  declared in \<^verbatim>\<open>data_structures.h\<close>, not part of the sources: the comparison is a
  parameter \<open>cmp\<close> of the model. The queue is the list of its entries in the order of
  their \<^verbatim>\<open>push\<close>; \<^verbatim>\<open>top\<close> is an entry that no other entry is above in \<open>cmp\<close> (the
  first such entry, where the library leaves the choice among equals open), and
  \<^verbatim>\<open>pop\<close> removes it.\<close>

type_synonym grid_cellz_compare = "grid_cellz \<Rightarrow> grid_cellz \<Rightarrow> bool"

fun pq_top :: "grid_cellz_compare \<Rightarrow> grid_cellz \<Rightarrow> grid_cellz list \<Rightarrow> grid_cellz" where
  "pq_top cmp best [] = best"
| "pq_top cmp best (d # ds) = pq_top cmp (if cmp best d then d else best) ds"

text \<open>The variables of \<open>find_watersheds\<close>. \<open>closed_2d\<close> holds the cells of the local
  grid \<^verbatim>\<open>closed\<close>, whose other properties are never read; the meander stack has its top
  at the head of the list. The \<^verbatim>\<open>int\<close> label counter and the \<^verbatim>\<open>int\<close> coordinates are
  integers without overflow: a coordinate that the program computes lies between \<open>-1\<close>
  and the width or height, and a run gives a new label to a cell at most once, so that
  on a grid of fewer than \<open>2^31\<close> cells neither leaves the range of \<^verbatim>\<open>int\<close>. The three
  \<^verbatim>\<open>unsigned long\<close> counters are natural numbers.\<close>

record ws_state =
  elevations :: "real array2d"
  labels :: "int array2d"
  closed_2d :: "int \<times> int \<Rightarrow> bool"
  open_pq :: "grid_cellz list"
  meander :: "grid_cellz list"
  clabel :: int
  processed_cells :: nat
  pitc :: nat
  openc :: nat

text \<open>The state after the set-up of \<^verbatim>\<open>closed\<close> and \<^verbatim>\<open>labels\<close>, before the seeding.\<close>

definition ws_start :: "real array2d \<Rightarrow> int array2d \<Rightarrow> ws_state" where
  "ws_start elevs labs =
     \<lparr>elevations = elevs,
      labels = init ((copyprops labs elevs)\<lparr>no_data := - 1\<rparr>) (- 1),
      closed_2d = (\<lambda>_. False),
      open_pq = [],
      meander = [],
      clabel = 1,
      processed_cells = 0,
      pitc = 0,
      openc = 0\<rparr>"

text \<open>The bodies of the two seeding loops, for one \<open>x\<close> and for one \<open>y\<close>.\<close>

definition seed_x :: "int \<Rightarrow> ws_state \<Rightarrow> ws_state" where
  "seed_x x s =
     (let e = elevations s; hl = int (height e) - 1
      in s\<lparr>open_pq := open_pq s @ [\<lparr>cx = x, cy = 0, cz = cell e x 0\<rparr>,
                                   \<lparr>cx = x, cy = hl, cz = cell e x hl\<rparr>],
           closed_2d := (closed_2d s)((x, 0) := True, (x, hl) := True)\<rparr>)"

definition seed_y :: "int \<Rightarrow> ws_state \<Rightarrow> ws_state" where
  "seed_y y s =
     (let e = elevations s; wl = int (width e) - 1
      in s\<lparr>open_pq := open_pq s @ [\<lparr>cx = 0, cy = y, cz = cell e 0 y\<rparr>,
                                   \<lparr>cx = wl, cy = y, cz = cell e wl y\<rparr>],
           closed_2d := (closed_2d s)((0, y) := True, (wl, y) := True)\<rparr>)"

definition seed :: "ws_state \<Rightarrow> ws_state" where
  "seed s =
     (let s1 = fold seed_x (map int [0..<width (elevations s)]) s
      in fold seed_y (map int [1..<height (elevations s) - 1]) s1)"

text \<open>The head of the main loop: its test and the pop. \<open>None\<close> when both structures
  are empty and the loop ends; otherwise the popped entry, from the meander stack when
  that is not empty.\<close>

definition next_cell ::
  "grid_cellz_compare \<Rightarrow> ws_state \<Rightarrow> (grid_cellz \<times> ws_state) option" where
  "next_cell cmp s =
     (case meander s of
        c # rest \<Rightarrow> Some (c, s\<lparr>meander := rest, pitc := pitc s + 1\<rparr>)
      | [] \<Rightarrow>
          (case open_pq s of
             [] \<Rightarrow> None
           | d # ds \<Rightarrow>
               let c = pq_top cmp d ds
               in Some (c, s\<lparr>open_pq := remove1 c (d # ds), openc := openc s + 1\<rparr>)))"

text \<open>The label of the popped cell: a new watershed when it has no label and holds
  data.\<close>

definition label_cell :: "grid_cellz \<Rightarrow> ws_state \<Rightarrow> ws_state" where
  "label_cell c s =
     (if cell (labels s) (cx c) (cy c) = no_data (labels s)
         \<and> cell (elevations s) (cx c) (cy c) \<noteq> no_data (elevations s)
      then s\<lparr>labels := put (labels s) (cx c) (cy c) (clabel s), clabel := clabel s + 1\<rparr>
      else s)"

text \<open>The body of the loop over the neighbours, for the neighbour \<open>n\<close> of the popped
  entry \<open>c\<close>.\<close>

definition visit :: "bool \<Rightarrow> grid_cellz \<Rightarrow> nat \<Rightarrow> ws_state \<Rightarrow> ws_state" where
  "visit alter_elevations c n s =
     (let nx = cx c + dx n; ny = cy c + dy n
      in if \<not> in_grid (elevations s) nx ny then s
         else if closed_2d s (nx, ny) then s
         else
           let s1 = s\<lparr>labels := put (labels s) nx ny (cell (labels s) (cx c) (cy c))\<rparr>;
               s2 = s1\<lparr>closed_2d := (closed_2d s1)((nx, ny) := True)\<rparr>
           in if cell (elevations s2) nx ny \<le> cz c
              then
                let s3 = (if alter_elevations
                          then s2\<lparr>elevations := put (elevations s2) nx ny (cz c)\<rparr>
                          else s2)
                in s3\<lparr>meander := \<lparr>cx = nx, cy = ny, cz = cz c\<rparr> # meander s3\<rparr>
              else s2\<lparr>open_pq :=
                        open_pq s2 @ [\<lparr>cx = nx, cy = ny, cz = cell (elevations s2) nx ny\<rparr>]\<rparr>)"

text \<open>One pass of the main loop after the pop.\<close>

definition ws_body :: "bool \<Rightarrow> grid_cellz \<Rightarrow> ws_state \<Rightarrow> ws_state" where
  "ws_body alter_elevations c s =
     (let s1 = s\<lparr>processed_cells := processed_cells s + 1\<rparr>;
          s2 = label_cell c s1
      in fold (visit alter_elevations c) [1..<9] s2)"

text \<open>The cells of the grid that are not closed, and the quantity that every pass of
  the main loop decreases.\<close>

definition unclosed :: "ws_state \<Rightarrow> (int \<times> int) set" where
  "unclosed s = {p \<in> {0..<int (width (elevations s))} \<times> {0..<int (height (elevations s))}.
                  \<not> closed_2d s p}"

definition ws_measure :: "ws_state \<Rightarrow> nat" where
  "ws_measure s = 2 * card (unclosed s) + length (open_pq s) + length (meander s)"

subsection \<open>The main loop ends\<close>

lemma pq_top_in: "pq_top cmp b ds \<in> set (b # ds)"
  by (induction ds arbitrary: b) auto

lemma put_props [simp]:
  "width (put g x y v) = width g" "height (put g x y v) = height g"
  "cellsize (put g x y v) = cellsize g" "no_data (put g x y v) = no_data g"
  by (simp_all add: put_def)

lemma cell_put [simp]: "cell (put g x y v) x' y' = (if x' = x \<and> y' = y then v else cell g x' y')"
  by (simp add: cell_def put_def)

lemma in_grid_put [simp]: "in_grid (put g x y v) = in_grid g"
  by (simp add: in_grid_def fun_eq_iff)

lemma finite_unclosed [simp]: "finite (unclosed s)"
  by (simp add: unclosed_def)

lemma visit_dims [simp]:
  "width (elevations (visit a c n s)) = width (elevations s)"
  "height (elevations (visit a c n s)) = height (elevations s)"
  by (simp_all add: visit_def Let_def)

lemma visit_measure: "ws_measure (visit a c n s) \<le> ws_measure s"
proof -
  define nx ny where "nx = cx c + dx n" and "ny = cy c + dy n"
  show ?thesis
  proof (cases "in_grid (elevations s) nx ny \<and> \<not> closed_2d s (nx, ny)")
    case False
    then show ?thesis by (auto simp: visit_def Let_def nx_def ny_def)
  next
    case True
    then have mem: "(nx, ny) \<in> unclosed s"
      by (auto simp: unclosed_def in_grid_def)
    have un: "unclosed (visit a c n s) = unclosed s - {(nx, ny)}"
      using True by (auto simp: visit_def Let_def nx_def ny_def unclosed_def)
    have len: "length (open_pq (visit a c n s)) + length (meander (visit a c n s))
               = length (open_pq s) + length (meander s) + 1"
      using True by (auto simp: visit_def Let_def nx_def ny_def)
    have "card (unclosed s - {(nx, ny)}) + 1 = card (unclosed s)"
      using mem card_Suc_Diff1 [of "unclosed s" "(nx, ny)"] by simp
    with un len show ?thesis by (simp add: ws_measure_def)
  qed
qed

lemma fold_visit_dims [simp]:
  "width (elevations (fold (visit a c) ns s)) = width (elevations s)"
  "height (elevations (fold (visit a c) ns s)) = height (elevations s)"
  by (induction ns arbitrary: s) simp_all

lemma fold_visit_measure: "ws_measure (fold (visit a c) ns s) \<le> ws_measure s"
proof (induction ns arbitrary: s)
  case Nil
  show ?case by simp
next
  case (Cons n ns)
  have "ws_measure (fold (visit a c) ns (visit a c n s)) \<le> ws_measure (visit a c n s)"
    by (rule Cons.IH)
  also have "\<dots> \<le> ws_measure s" by (rule visit_measure)
  finally show ?case by simp
qed

lemma label_cell_measure [simp]: "ws_measure (label_cell c s) = ws_measure s"
  by (simp add: label_cell_def ws_measure_def unclosed_def)

lemma ws_body_measure: "ws_measure (ws_body a c s) \<le> ws_measure s"
proof -
  have "ws_measure (ws_body a c s) \<le> ws_measure (label_cell c (s\<lparr>processed_cells := processed_cells s + 1\<rparr>))"
    unfolding ws_body_def Let_def by (rule fold_visit_measure)
  also have "\<dots> = ws_measure (s\<lparr>processed_cells := processed_cells s + 1\<rparr>)"
    by (rule label_cell_measure)
  also have "\<dots> = ws_measure s" by (simp add: ws_measure_def unclosed_def)
  finally show ?thesis .
qed

lemma next_cell_measure:
  assumes "next_cell cmp s = Some (c, s1)"
  shows "ws_measure s1 < ws_measure s"
proof (cases "meander s")
  case (Cons m rest)
  with assms show ?thesis
    by (auto simp: next_cell_def ws_measure_def unclosed_def)
next
  case Nil
  with assms obtain d ds where q: "open_pq s = d # ds"
    by (auto simp: next_cell_def split: list.splits)
  have "pq_top cmp d ds \<in> set (d # ds)" by (rule pq_top_in)
  then have "length (remove1 (pq_top cmp d ds) (d # ds)) < length (d # ds)"
    by (simp only: length_remove1 if_True) simp
  with assms Nil q show ?thesis
    by (auto simp: next_cell_def ws_measure_def unclosed_def Let_def simp del: remove1.simps)
qed

text \<open>The main loop \<^verbatim>\<open>while(open.size()>0 || meander.size()>0)\<close>.\<close>

function ws_loop :: "grid_cellz_compare \<Rightarrow> bool \<Rightarrow> ws_state \<Rightarrow> ws_state" where
  "ws_loop cmp alter_elevations s =
     (case next_cell cmp s of
        None \<Rightarrow> s
      | Some (c, s1) \<Rightarrow> ws_loop cmp alter_elevations (ws_body alter_elevations c s1))"
  by pat_completeness auto
termination
proof (relation "measure (\<lambda>(cmp, alter_elevations, s). ws_measure s)")
  show "wf (measure (\<lambda>(cmp, alter_elevations, s). ws_measure s))" by simp
next
  fix cmp :: grid_cellz_compare and alter_elevations s x2 c s1
  assume "next_cell cmp s = Some x2" and "(c, s1) = x2"
  then have "ws_measure s1 < ws_measure s" by (auto intro: next_cell_measure)
  moreover have "ws_measure (ws_body alter_elevations c s1) \<le> ws_measure s1"
    by (rule ws_body_measure)
  ultimately show "((cmp, alter_elevations, ws_body alter_elevations c s1), cmp, alter_elevations, s)
        \<in> measure (\<lambda>(cmp, alter_elevations, s). ws_measure s)"
    by simp
qed

declare ws_loop.simps [simp del]

text \<open>The seeding loops index row \<open>height - 1\<close> and column \<open>width - 1\<close> with no bounds
  test. On a grid with \<open>width > 0\<close> and \<open>height = 0\<close>, and on one with \<open>width = 0\<close> and
  \<open>height > 2\<close>, these indices are outside the grid (\<open>seed_outside_grid\<close> below) and the
  behaviour of the program is not defined: the model returns \<open>Index_outside_grid\<close>. On
  every other grid all indices of the seeding are inside (\<open>seed_in_grid\<close>).

  \<open>labs\<close> is the output parameter \<^verbatim>\<open>labels\<close> as the caller passes it in.\<close>

datatype ws_error = Index_outside_grid

definition find_watersheds ::
  "grid_cellz_compare \<Rightarrow> real array2d \<Rightarrow> int array2d \<Rightarrow> bool \<Rightarrow> ws_error + ws_state" where
  "find_watersheds cmp elevs labs alter_elevations =
     (if (0 < width elevs \<and> height elevs = 0) \<or> (width elevs = 0 \<and> 2 < height elevs)
      then Inl Index_outside_grid
      else Inr (ws_loop cmp alter_elevations (seed (ws_start elevs labs))))"

section \<open>Notions for the statements about the flood\<close>

text \<open>The cell of the neighbour \<open>n\<close> of the entry \<open>c\<close>. It is a target of the flood from
  the state \<open>s\<close> when it is inside the grid and not closed, and it sinks when its
  elevation is not above the flood elevation of \<open>c\<close>: the two tests of \<open>visit\<close>.\<close>

definition nb :: "grid_cellz \<Rightarrow> nat \<Rightarrow> int \<times> int" where
  "nb c n = (cx c + dx n, cy c + dy n)"

definition target :: "grid_cellz \<Rightarrow> nat \<Rightarrow> ws_state \<Rightarrow> bool" where
  "target c n s \<longleftrightarrow>
     in_grid (elevations s) (cx c + dx n) (cy c + dy n) \<and> \<not> closed_2d s (nb c n)"

definition sinks :: "grid_cellz \<Rightarrow> nat \<Rightarrow> ws_state \<Rightarrow> bool" where
  "sinks c n s \<longleftrightarrow> data (elevations s) (nb c n) \<le> cz c"

text \<open>The entries that wait in the open queue or on the meander stack.\<close>

definition queued :: "ws_state \<Rightarrow> grid_cellz set" where
  "queued s = set (open_pq s) \<union> set (meander s)"

text \<open>What holds at every head of the main loop of a run on the elevation grid
  \<open>elevs\<close>: the dimensions and the no-data values stay; a waiting entry is the entry of a
  closed cell of the grid and, with \<^verbatim>\<open>alter_elevations\<close>, carries the current elevation
  of its cell; a cell that is not closed has no label and its input elevation; the labels
  in use are below the counter; no elevation is below the input; a no-data cell without
  label still holds the no-data value. \<open>ws_pass_inv\<close> adds, inside a pass, what holds of
  the popped entry \<open>c\<close>.\<close>

definition ws_inv :: "real array2d \<Rightarrow> bool \<Rightarrow> ws_state \<Rightarrow> bool" where
  "ws_inv elevs a s \<longleftrightarrow>
     width (elevations s) = width elevs \<and> height (elevations s) = height elevs
     \<and> no_data (elevations s) = no_data elevs \<and> no_data (labels s) = - 1
     \<and> (\<forall>e \<in> queued s. in_grid elevs (cx e) (cy e) \<and> closed_2d s (cx e, cy e)
            \<and> (a \<longrightarrow> cz e = data (elevations s) (cx e, cy e)))
     \<and> (\<forall>p. \<not> closed_2d s p \<longrightarrow> data (labels s) p = - 1 \<and> data (elevations s) p = data elevs p)
     \<and> 1 \<le> clabel s
     \<and> (\<forall>p. data (labels s) p = - 1 \<or> (1 \<le> data (labels s) p \<and> data (labels s) p < clabel s))
     \<and> (\<forall>p. data elevs p \<le> data (elevations s) p)
     \<and> (\<forall>p. data elevs p = no_data elevs \<and> data (labels s) p = - 1
            \<longrightarrow> data (elevations s) p = no_data elevs)"

definition ws_pass_inv :: "real array2d \<Rightarrow> bool \<Rightarrow> grid_cellz \<Rightarrow> ws_state \<Rightarrow> bool" where
  "ws_pass_inv elevs a c s \<longleftrightarrow>
     ws_inv elevs a s \<and> closed_2d s (cx c, cy c)
     \<and> (a \<longrightarrow> cz c = data (elevations s) (cx c, cy c))
     \<and> (data (labels s) (cx c, cy c) = - 1
          \<longrightarrow> data (elevations s) (cx c, cy c) = no_data elevs)"

text \<open>The entries that the two seeding loops push, in the order of the pushes.\<close>

definition seed_entries :: "real array2d \<Rightarrow> grid_cellz list" where
  "seed_entries e =
     concat (map (\<lambda>x. [\<lparr>cx = x, cy = 0, cz = cell e x 0\<rparr>,
                         \<lparr>cx = x, cy = int (height e) - 1, cz = cell e x (int (height e) - 1)\<rparr>])
               (map int [0..<width e]))
     @ concat (map (\<lambda>y. [\<lparr>cx = 0, cy = y, cz = cell e 0 y\<rparr>,
                           \<lparr>cx = int (width e) - 1, cy = y, cz = cell e (int (width e) - 1) y\<rparr>])
                 (map int [1..<height e - 1]))"

text \<open>The states at the head of the main loop, in a run that enters the loop in
  \<open>s0\<close>.\<close>

inductive ws_reach :: "grid_cellz_compare \<Rightarrow> bool \<Rightarrow> ws_state \<Rightarrow> ws_state \<Rightarrow> bool"
  for cmp a s0 where
    start: "ws_reach cmp a s0 s0"
  | pass: "ws_reach cmp a s0 s \<Longrightarrow> next_cell cmp s = Some (c, s1)
             \<Longrightarrow> ws_reach cmp a s0 (ws_body a c s1)"

text \<open>The entries that the loop over the neighbours adds are on top of the meander
  stack and at the end of the open queue. Each carries a flood elevation that is not
  below that of the popped entry, and is the entry of a cell that was not closed and now
  is. Closed cells stay closed and keep their elevation; an elevation never decreases.\<close>

definition grows :: "grid_cellz \<Rightarrow> ws_state \<Rightarrow> ws_state \<Rightarrow> bool" where
  "grows c s s' \<longleftrightarrow>
     (\<exists>ms os. meander s' = ms @ meander s \<and> open_pq s' = open_pq s @ os
        \<and> (\<forall>e \<in> set ms \<union> set os. cz c \<le> cz e \<and> \<not> closed_2d s (cx e, cy e)
              \<and> closed_2d s' (cx e, cy e)))
     \<and> (\<forall>p. closed_2d s p \<longrightarrow> closed_2d s' p \<and> data (elevations s') p = data (elevations s) p)
     \<and> (\<forall>p. data (elevations s) p \<le> data (elevations s') p)"

text \<open>The loop over the neighbours writes a label only at a neighbour that is inside
  the grid and was not closed, and the label it writes is that of the popped cell.\<close>

definition relabels :: "grid_cellz \<Rightarrow> ws_state \<Rightarrow> ws_state \<Rightarrow> bool" where
  "relabels c s s' \<longleftrightarrow>
     (\<forall>p. closed_2d s p \<longrightarrow> closed_2d s' p)
     \<and> (\<forall>p. data (labels s') p \<noteq> data (labels s) p \<longrightarrow>
            (\<exists>n. 1 \<le> n \<and> n \<le> 8 \<and> p = nb c n) \<and> in_grid (elevations s) (fst p) (snd p)
            \<and> \<not> closed_2d s p \<and> data (labels s') p = data (labels s) (cx c, cy c))
     \<and> no_data (labels s') = no_data (labels s) \<and> clabel s' = clabel s
     \<and> width (elevations s') = width (elevations s)
     \<and> height (elevations s') = height (elevations s)"

text \<open>The entries that the pass for the popped entry \<open>c\<close> pushes, the state after the
  pop being \<open>s1\<close>: those on top of the meander stack, then those at the end of the open
  queue.\<close>

definition pushed :: "bool \<Rightarrow> grid_cellz \<Rightarrow> ws_state \<Rightarrow> grid_cellz list" where
  "pushed a c s1 =
     (let s2 = ws_body a c s1
      in take (length (meander s2) - length (meander s1)) (meander s2)
         @ drop (length (open_pq s1)) (open_pq s2))"

text \<open>A discovery path of a run that enters the main loop in \<open>s0\<close>: it starts at a
  seeded entry, and each further entry is pushed by the pass that pops the entry before
  it.\<close>

inductive discovery_path ::
  "grid_cellz_compare \<Rightarrow> bool \<Rightarrow> ws_state \<Rightarrow> grid_cellz list \<Rightarrow> bool"
  for cmp a s0 where
    seeded: "e \<in> set (open_pq s0) \<Longrightarrow> discovery_path cmp a s0 [e]"
  | discovered:
      "discovery_path cmp a s0 (path @ [c]) \<Longrightarrow> ws_reach cmp a s0 s
       \<Longrightarrow> next_cell cmp s = Some (c, s1) \<Longrightarrow> e \<in> set (pushed a c s1)
       \<Longrightarrow> discovery_path cmp a s0 (path @ [c, e])"

text \<open>The cells on the outer boundary of a grid.\<close>

definition boundary :: "'a array2d \<Rightarrow> (int \<times> int) set" where
  "boundary e = {(x, y). in_grid e x y
                  \<and> (x = 0 \<or> y = 0 \<or> x = int (width e) - 1 \<or> y = int (height e) - 1)}"

text \<open>The passes done, the entries waiting and the cells of the grid not closed so
  far: their sum is the same at every head of the main loop.\<close>

definition ws_work :: "ws_state \<Rightarrow> nat" where
  "ws_work s = processed_cells s + length (open_pq s) + length (meander s) + card (unclosed s)"

section \<open>Example grids\<close>

text \<open>A flat 5 by 5 grid, a 3 by 3 grid of data around one no-data cell, and a grid of
  one row.\<close>

definition flat5 :: "real array2d" where
  "flat5 = \<lparr>width = 5, height = 5, cellsize = 1, no_data = - 9999, data = (\<lambda>_. 100)\<rparr>"

definition hole3 :: "real array2d" where
  "hole3 = \<lparr>width = 3, height = 3, cellsize = 1, no_data = - 9999,
            data = (\<lambda>p. if p = (1, 1) then - 9999 else 1)\<rparr>"

definition row3 :: "real array2d" where
  "row3 = \<lparr>width = 3, height = 1, cellsize = 1, no_data = - 9999, data = (\<lambda>_. 1)\<rparr>"

text \<open>Modelled from the spec: the open queue orders its entries by elevation, the
  highest on top.\<close>

definition cmp_z :: grid_cellz_compare where
  "cmp_z a b \<longleftrightarrow> cz a < cz b"

definition no_labels :: "int array2d" where
  "no_labels = \<lparr>width = 0, height = 0, cellsize = 0, no_data = 0, data = (\<lambda>_. 0)\<rparr>"

text \<open>The run on \<open>hole3\<close> with \<^verbatim>\<open>alter_elevations\<close>: the state after the seeding, the
  entry of the first pop, the state after that pop and the state after the first pass.\<close>

definition hole3_seeded :: ws_state where
  "hole3_seeded = seed (ws_start hole3 no_labels)"

definition hole3_corner :: grid_cellz where
  "hole3_corner = \<lparr>cx = 0, cy = 0, cz = 1\<rparr>"

definition hole3_popped :: ws_state where
  "hole3_popped = hole3_seeded\<lparr>open_pq := tl (open_pq hole3_seeded),
                               openc := openc hole3_seeded + 1\<rparr>"

definition hole3_pass1 :: ws_state where
  "hole3_pass1 = ws_body True hole3_corner hole3_popped"

definition hole3_middle :: grid_cellz where
  "hole3_middle = \<lparr>cx = 1, cy = 1, cz = 1\<rparr>"

text \<open>A grid with a no-data cell in a corner.\<close>

definition corner3 :: "real array2d" where
  "corner3 = \<lparr>width = 3, height = 3, cellsize = 1, no_data = - 9999,
              data = (\<lambda>p. if p = (0, 0) then - 9999 else 1)\<rparr>"

section \<open>Scans of a grid\<close>

lemma fold_preserve:
  assumes "\<And>x s. f (body x s) = f s"
  shows "f (fold body xs s) = f s"
  using assms by (induction xs arbitrary: s) simp_all

lemma for_xy_preserve:
  assumes "\<And>x y s. f (body x y s) = f s"
  shows "f (for_xy w h body s) = f s"
  unfolding for_xy_def
  by (rule fold_preserve, rule fold_preserve, rule assms)

lemma for_y_data:
  assumes nd: "\<And>x y g. no_data (body x y g) = no_data g"
    and upd: "\<And>x y g. data (body x y g) = (data g)((x, y) := F (no_data g) x y (data g (x, y)))"
    and d: "distinct ys"
  shows "data (fold (\<lambda>y. body x y) ys g) (x', y') =
           (if x' = x \<and> y' \<in> set ys then F (no_data g) x y' (data g (x', y')) else data g (x', y'))"
  using d
proof (induction ys arbitrary: g)
  case Nil
  show ?case by simp
next
  case (Cons y ys)
  then show ?case by (auto simp: nd upd)
qed

lemma for_xy_data_gen:
  assumes nd: "\<And>x y g. no_data (body x y g) = no_data g"
    and upd: "\<And>x y g. data (body x y g) = (data g)((x, y) := F (no_data g) x y (data g (x, y)))"
    and d: "distinct xs" "distinct ys"
  shows "data (fold (\<lambda>x. fold (\<lambda>y. body x y) ys) xs g) (x', y') =
           (if x' \<in> set xs \<and> y' \<in> set ys then F (no_data g) x' y' (data g (x', y'))
            else data g (x', y'))"
  using d(1)
proof (induction xs arbitrary: g)
  case Nil
  show ?case by simp
next
  case (Cons x xs)
  have nd': "no_data (fold (\<lambda>y. body x y) ys g) = no_data g"
    by (rule fold_preserve) (rule nd)
  from Cons show ?case
    by (auto simp: for_y_data [where body = body and F = F, OF nd upd d(2)] nd')
qed

lemma for_xy_data:
  assumes nd: "\<And>x y g. no_data (body x y g) = no_data g"
    and upd: "\<And>x y g. data (body x y g) = (data g)((x, y) := F (no_data g) x y (data g (x, y)))"
  shows "cell (for_xy w h body g) x y =
           (if 0 \<le> x \<and> x < int w \<and> 0 \<le> y \<and> y < int h
            then F (no_data g) x y (cell g x y) else cell g x y)"
proof -
  have dx: "distinct (map int [0..<w])" and dy: "distinct (map int [0..<h])"
    by (simp_all add: distinct_map)
  have mem: "\<And>n z. z \<in> set (map int [0..<n]) \<longleftrightarrow> 0 \<le> z \<and> z < int n"
  proof -
    fix n z
    show "z \<in> set (map int [0..<n]) \<longleftrightarrow> 0 \<le> z \<and> z < int n"
    proof
      assume "z \<in> set (map int [0..<n])"
      then show "0 \<le> z \<and> z < int n" by auto
    next
      assume "0 \<le> z \<and> z < int n"
      then have "nat z < n" "z = int (nat z)" by auto
      then show "z \<in> set (map int [0..<n])" by (metis atLeast0LessThan image_eqI lessThan_iff set_map set_upt)
    qed
  qed
  show ?thesis
    unfolding for_xy_def cell_def
    using for_xy_data_gen [where body = body and F = F, OF nd upd dx dy, of g x y]
    by (simp only: mem) auto
qed

section \<open>Properties of the terrain attributes\<close>

lemma attrib_cell_props [simp]:
  "width (attrib_cell e a x y g) = width g" "height (attrib_cell e a x y g) = height g"
  "cellsize (attrib_cell e a x y g) = cellsize g" "no_data (attrib_cell e a x y g) = no_data g"
  by (simp_all add: attrib_cell_def Let_def put_def split: tattrib.splits)

definition attrib_value :: "real array2d \<Rightarrow> tattrib \<Rightarrow> real \<Rightarrow> int \<Rightarrow> int \<Rightarrow> real \<Rightarrow> real" where
  "attrib_value e a nd x y old =
     (if cell e x y = no_data e then nd
      else case a of
          TATTRIB_CURVATURE \<Rightarrow> curvature (d8_terrain_attrib_helper e x y)
        | TATTRIB_PLANFORM_CURVATURE \<Rightarrow> planform_curvature (d8_terrain_attrib_helper e x y)
        | TATTRIB_PROFILE_CURVATURE \<Rightarrow> profile_curvature (d8_terrain_attrib_helper e x y)
        | TATTRIB_ASPECT \<Rightarrow> aspect (d8_terrain_attrib_helper e x y)
        | TATTRIB_SLOPE_RISERUN \<Rightarrow> rise_over_run (d8_terrain_attrib_helper e x y)
        | TATTRIB_SLOPE_PERCENT \<Rightarrow> rise_over_run (d8_terrain_attrib_helper e x y) * 100
        | TATTRIB_SLOPE_RADIAN \<Rightarrow> arctan (rise_over_run (d8_terrain_attrib_helper e x y))
        | TATTRIB_SLOPE_DEGREE \<Rightarrow> arctan (rise_over_run (d8_terrain_attrib_helper e x y)) * 180 / pi
        | TATTRIB_unlisted \<Rightarrow> old)"

lemma attrib_cell_data:
  "data (attrib_cell e a x y g) = (data g)((x, y) := attrib_value e a (no_data g) x y (data g (x, y)))"
  by (simp add: attrib_cell_def attrib_value_def Let_def put_def cell_def split: tattrib.splits)

lemma d8_terrain_attribute_cell:
  "cell (d8_terrain_attribute e g a) x y =
     (if in_grid e x y then attrib_value e a (- 99999) x y (cell g x y) else cell g x y)"
proof -
  let ?g2 = "(copyprops g e)\<lparr>no_data := - 99999\<rparr>"
  have "cell (for_xy (width e) (height e) (attrib_cell e a) ?g2) x y =
          (if 0 \<le> x \<and> x < int (width e) \<and> 0 \<le> y \<and> y < int (height e)
           then attrib_value e a (no_data ?g2) x y (cell ?g2 x y) else cell ?g2 x y)"
    by (rule for_xy_data) (simp_all add: attrib_cell_data)
  then show ?thesis
    by (auto simp: d8_terrain_attribute_def Let_def in_grid_def copyprops_def cell_def)
qed

text \<open>
  C6: for every elevation grid and every attribute selector, the grid that
  \<open>d8_terrain_attribute\<close> produces has the width, the height and the cell size of the
  input, its no-data value is \<open>-99999\<close> whatever the input's is, and every cell whose
  input elevation is the input's no-data value holds \<open>-99999\<close>.
\<close>

theorem d8_terrain_attribute_grid:
  "width (d8_terrain_attribute elevs attrs attrib) = width elevs
   \<and> height (d8_terrain_attribute elevs attrs attrib) = height elevs
   \<and> cellsize (d8_terrain_attribute elevs attrs attrib) = cellsize elevs
   \<and> no_data (d8_terrain_attribute elevs attrs attrib) = - 99999
   \<and> (\<forall>x y. in_grid elevs x y \<and> cell elevs x y = no_data elevs
         \<longrightarrow> cell (d8_terrain_attribute elevs attrs attrib) x y = - 99999)"
proof -
  let ?g2 = "(copyprops attrs elevs)\<lparr>no_data := - 99999\<rparr>"
  let ?out = "for_xy (width elevs) (height elevs) (attrib_cell elevs attrib) ?g2"
  have "width ?out = width ?g2" by (rule for_xy_preserve) simp
  moreover have "height ?out = height ?g2" by (rule for_xy_preserve) simp
  moreover have "cellsize ?out = cellsize ?g2" by (rule for_xy_preserve) simp
  moreover have "no_data ?out = no_data ?g2" by (rule for_xy_preserve) simp
  ultimately have props: "width ?out = width elevs" "height ?out = height elevs"
    "cellsize ?out = cellsize elevs" "no_data ?out = - 99999"
    by (simp_all add: copyprops_def)
  have cells: "\<forall>x y. in_grid elevs x y \<and> cell elevs x y = no_data elevs
         \<longrightarrow> cell (d8_terrain_attribute elevs attrs attrib) x y = - 99999"
    by (simp add: d8_terrain_attribute_cell attrib_value_def)
  from props cells show ?thesis
    by (simp add: d8_terrain_attribute_def Let_def)
qed

theorem d8_terrain_attribute_grid_witness:
  "in_grid hole3 1 1 \<and> cell hole3 1 1 = no_data hole3
   \<and> width (d8_terrain_attribute hole3 flat5 TATTRIB_ASPECT) = 3
   \<and> height (d8_terrain_attribute hole3 flat5 TATTRIB_ASPECT) = 3
   \<and> cellsize (d8_terrain_attribute hole3 flat5 TATTRIB_ASPECT) = 1
   \<and> no_data (d8_terrain_attribute hole3 flat5 TATTRIB_ASPECT) = - 99999
   \<and> cell (d8_terrain_attribute hole3 flat5 TATTRIB_ASPECT) 1 1 = - 99999"
proof -
  have h: "in_grid hole3 1 1 \<and> cell hole3 1 1 = no_data hole3"
    by (simp add: hole3_def in_grid_def cell_def)
  with d8_terrain_attribute_grid [of hole3 flat5 TATTRIB_ASPECT]
  have "cell (d8_terrain_attribute hole3 flat5 TATTRIB_ASPECT) 1 1 = - 99999"
    by blast
  with h d8_terrain_attribute_grid [of hole3 flat5 TATTRIB_ASPECT] show ?thesis
    by (simp add: hole3_def)
qed

lemma flat_window:
  assumes "\<forall>x y. in_grid g x y \<longrightarrow> cell g x y = 100" and "in_grid g x0 y0"
  shows "window g x0 y0 x y = 100"
  using assms by (simp add: window_def Let_def)

text \<open>
  C7: on a flat 5 by 5 grid, every cell 100 and none no-data, with a cell size other than 0,
  the helper yields at every interior cell rise over run 0, aspect \<open>-1\<close>, curvature 0,
  profile curvature 0 and planform curvature 0, and \<open>d8_terrain_attribute\<close> writes these
  values for the five selectors. (In the arithmetic of the reals; the differences of the
  window are differences of equal numbers.)
\<close>

theorem flat_plane_attributes:
  assumes "width g = 5" and "height g = 5"
    and "\<forall>x y. in_grid g x y \<longrightarrow> cell g x y = 100"
    and "no_data g \<noteq> 100"
    and "cellsize g \<noteq> 0"
    and "1 \<le> x \<and> x \<le> 3 \<and> 1 \<le> y \<and> y \<le> 3"
  shows "d8_terrain_attrib_helper g x y =
           \<lparr>rise_over_run = 0, aspect = - 1, curvature = 0,
            profile_curvature = 0, planform_curvature = 0\<rparr>
         \<and> cell (d8_terrain_attribute g out TATTRIB_SLOPE_RISERUN) x y = 0
         \<and> cell (d8_terrain_attribute g out TATTRIB_ASPECT) x y = - 1
         \<and> cell (d8_terrain_attribute g out TATTRIB_CURVATURE) x y = 0
         \<and> cell (d8_terrain_attribute g out TATTRIB_PROFILE_CURVATURE) x y = 0
         \<and> cell (d8_terrain_attribute g out TATTRIB_PLANFORM_CURVATURE) x y = 0"
proof -
  have ing: "in_grid g x y" using assms(1,2,6) by (simp add: in_grid_def)
  have w: "\<And>u v. window g x y u v = 100"
    using assms(3) ing by (rule flat_window)
  have c: "cell g x y = 100" using assms(3) ing by simp
  have h: "d8_terrain_attrib_helper g x y =
           \<lparr>rise_over_run = 0, aspect = - 1, curvature = 0,
            profile_curvature = 0, planform_curvature = 0\<rparr>"
    by (simp add: d8_terrain_attrib_helper_def w c Let_def)
  show ?thesis
    using ing assms(4) c by (simp add: h d8_terrain_attribute_cell attrib_value_def)
qed

theorem flat_plane_attributes_witness:
  "d8_terrain_attrib_helper flat5 2 2 =
     \<lparr>rise_over_run = 0, aspect = - 1, curvature = 0,
      profile_curvature = 0, planform_curvature = 0\<rparr>
   \<and> cell (d8_terrain_attribute flat5 hole3 TATTRIB_SLOPE_RISERUN) 2 2 = 0
   \<and> cell (d8_terrain_attribute flat5 hole3 TATTRIB_ASPECT) 2 2 = - 1
   \<and> cell (d8_terrain_attribute flat5 hole3 TATTRIB_CURVATURE) 2 2 = 0
   \<and> cell (d8_terrain_attribute flat5 hole3 TATTRIB_PROFILE_CURVATURE) 2 2 = 0
   \<and> cell (d8_terrain_attribute flat5 hole3 TATTRIB_PLANFORM_CURVATURE) 2 2 = 0"
  by (rule flat_plane_attributes) (simp_all add: flat5_def cell_def)

section \<open>Properties of SPI and CTI\<close>

lemma spi_cell_props [simp]:
  "width (spi_cell f p x y g) = width g" "height (spi_cell f p x y g) = height g"
  "cellsize (spi_cell f p x y g) = cellsize g" "no_data (spi_cell f p x y g) = no_data g"
  "width (cti_cell f p x y g) = width g" "height (cti_cell f p x y g) = height g"
  "cellsize (cti_cell f p x y g) = cellsize g" "no_data (cti_cell f p x y g) = no_data g"
  by (simp_all add: spi_cell_def cti_cell_def)

definition spi_value :: "real array2d \<Rightarrow> real array2d \<Rightarrow> real \<Rightarrow> int \<Rightarrow> int \<Rightarrow> real \<Rightarrow> real" where
  "spi_value f p nd x y old =
     (if cell f x y = no_data f \<or> cell p x y = no_data p then nd
      else ln (cellsize f * (cell f x y + 0.001) * ((cell p x y / 100) + 0.001)))"

definition cti_value :: "real array2d \<Rightarrow> real array2d \<Rightarrow> real \<Rightarrow> int \<Rightarrow> int \<Rightarrow> real \<Rightarrow> real" where
  "cti_value f p nd x y old =
     (if cell f x y = no_data f \<or> cell p x y = no_data p then nd
      else ln (cellsize f * (cell f x y + 0.001) / ((cell p x y / 100) + 0.001)))"

lemma spi_cell_data:
  "data (spi_cell f p x y g) = (data g)((x, y) := spi_value f p (no_data g) x y (data g (x, y)))"
  by (simp add: spi_cell_def spi_value_def put_def)

lemma cti_cell_data:
  "data (cti_cell f p x y g) = (data g)((x, y) := cti_value f p (no_data g) x y (data g (x, y)))"
  by (simp add: cti_cell_def cti_value_def put_def)

lemma spi_scan_cell:
  "in_grid f x y \<Longrightarrow>
   cell (for_xy (width f) (height f) (spi_cell f p) ((copyprops r f)\<lparr>no_data := - 1\<rparr>)) x y
     = spi_value f p (- 1) x y (cell r x y)"
  by (subst for_xy_data [where F = "spi_value f p"])
     (simp_all add: spi_cell_data in_grid_def cell_def copyprops_def)

lemma cti_scan_cell:
  "in_grid f x y \<Longrightarrow>
   cell (for_xy (width f) (height f) (cti_cell f p) ((copyprops r f)\<lparr>no_data := - 1\<rparr>)) x y
     = cti_value f p (- 1) x y (cell r x y)"
  by (subst for_xy_data [where F = "cti_value f p"])
     (simp_all add: cti_cell_data in_grid_def cell_def copyprops_def)

text \<open>
  C8: for input grids of equal dimensions and every cell of the grid, \<open>d8_SPI\<close> and
  \<open>d8_CTI\<close> return, the no-data value of the output is \<open>-1\<close>, and the output cell is
  \<open>-1\<close> when the flow-accumulation cell or the percent-slope cell is its grid's no-data
  value, and otherwise the logarithm of \<open>cellsize * (flow + 0.001)\<close> multiplied (SPI) or
  divided (CTI) by \<open>slope / 100 + 0.001\<close>. (In the arithmetic of the reals.)
\<close>

theorem d8_SPI_CTI_cells:
  assumes "width flow = width slope" and "height flow = height slope"
    and "in_grid flow x y"
  shows "(\<exists>out. d8_SPI flow slope result = Inr out \<and> no_data out = - 1
            \<and> cell out x y =
                (if cell flow x y = no_data flow \<or> cell slope x y = no_data slope then - 1
                 else ln (cellsize flow * (cell flow x y + 0.001) * (cell slope x y / 100 + 0.001))))
       \<and> (\<exists>out. d8_CTI flow slope result = Inr out \<and> no_data out = - 1
            \<and> cell out x y =
                (if cell flow x y = no_data flow \<or> cell slope x y = no_data slope then - 1
                 else ln (cellsize flow * (cell flow x y + 0.001) / (cell slope x y / 100 + 0.001))))"
proof -
  let ?r2 = "(copyprops result flow)\<lparr>no_data := - 1\<rparr>"
  have "no_data (for_xy (width flow) (height flow) (spi_cell flow slope) ?r2) = no_data ?r2"
    by (rule for_xy_preserve) simp
  moreover have "no_data (for_xy (width flow) (height flow) (cti_cell flow slope) ?r2) = no_data ?r2"
    by (rule for_xy_preserve) simp
  ultimately show ?thesis
    using assms(3)
    by (simp add: d8_SPI_def d8_CTI_def Let_def spi_scan_cell cti_scan_cell
          spi_value_def cti_value_def assms(1,2) [symmetric])
qed

theorem d8_SPI_CTI_cells_witness:
  "(\<exists>out. d8_SPI hole3 hole3 flat5 = Inr out \<and> no_data out = - 1 \<and> cell out 1 1 = - 1
          \<and> cell out 0 2 = ln (1 * (1 + 0.001) * (1 / 100 + 0.001)))
   \<and> (\<exists>out. d8_CTI hole3 hole3 flat5 = Inr out \<and> no_data out = - 1 \<and> cell out 1 1 = - 1
          \<and> cell out 0 2 = ln (1 * (1 + 0.001) / (1 / 100 + 0.001)))"
proof -
  have g: "in_grid hole3 1 1" "in_grid hole3 0 2"
    by (simp_all add: hole3_def in_grid_def)
  have c: "cell hole3 1 1 = no_data hole3" "cell hole3 0 2 = 1" "no_data hole3 = - 9999"
    "cellsize hole3 = 1"
    by (simp_all add: hole3_def cell_def)
  from d8_SPI_CTI_cells [OF refl refl g(1), where result = flat5]
    d8_SPI_CTI_cells [OF refl refl g(2), where result = flat5]
  show ?thesis by (auto simp: c)
qed

text \<open>
  C5: when the flow-accumulation grid and the percent-slope grid differ in width or in
  height, \<open>d8_SPI\<close> and \<open>d8_CTI\<close> report the mismatch and end the process with status
  \<open>-1\<close>, the result grid as the caller passed it; when the dimensions are equal, neither
  ends the process.
\<close>

theorem d8_SPI_CTI_dimension_guard:
  "(width flow \<noteq> width slope \<or> height flow \<noteq> height slope \<longrightarrow>
      d8_SPI flow slope result =
        Inl (Exit (- 1)
               ''Couldn't calculate SPI! The input matricies were of unequal dimensions!'',
             result)
      \<and> d8_CTI flow slope result =
        Inl (Exit (- 1)
               ''Couldn't calculate CTI! The input matricies were of unequal dimensions!'',
             result))
   \<and> (width flow = width slope \<and> height flow = height slope \<longrightarrow>
        \<not> isl (d8_SPI flow slope result) \<and> \<not> isl (d8_CTI flow slope result))"
  by (simp add: d8_SPI_def d8_CTI_def Let_def)

theorem d8_SPI_CTI_dimension_guard_witness:
  "d8_SPI flat5 hole3 row3 =
     Inl (Exit (- 1)
            ''Couldn't calculate SPI! The input matricies were of unequal dimensions!'',
          row3)
   \<and> d8_CTI flat5 hole3 row3 =
     Inl (Exit (- 1)
            ''Couldn't calculate CTI! The input matricies were of unequal dimensions!'',
          row3)
   \<and> \<not> isl (d8_SPI hole3 hole3 row3) \<and> \<not> isl (d8_CTI hole3 hole3 row3)"
  using d8_SPI_CTI_dimension_guard [of flat5 hole3 row3]
    d8_SPI_CTI_dimension_guard [of hole3 hole3 row3]
  by (simp add: flat5_def hole3_def)

section \<open>Properties of the flood\<close>

subsection \<open>One neighbour\<close>

lemma visit_skip: "\<not> target c n s \<Longrightarrow> visit a c n s = s"
  by (auto simp: visit_def target_def nb_def Let_def)

lemma visit_labels:
  "labels (visit a c n s) =
     (if target c n s
      then put (labels s) (cx c + dx n) (cy c + dy n) (cell (labels s) (cx c) (cy c))
      else labels s)"
  by (auto simp: visit_def target_def nb_def Let_def)

lemma visit_closed:
  "closed_2d (visit a c n s) =
     (if target c n s then (closed_2d s)(nb c n := True) else closed_2d s)"
  by (auto simp: visit_def target_def nb_def Let_def)

lemma visit_elevations:
  "elevations (visit a c n s) =
     (if target c n s \<and> sinks c n s \<and> a
      then put (elevations s) (cx c + dx n) (cy c + dy n) (cz c)
      else elevations s)"
  by (auto simp: visit_def target_def sinks_def nb_def Let_def cell_def)

lemma visit_meander:
  "meander (visit a c n s) =
     (if target c n s \<and> sinks c n s
      then \<lparr>cx = cx c + dx n, cy = cy c + dy n, cz = cz c\<rparr> # meander s
      else meander s)"
  by (auto simp: visit_def target_def sinks_def nb_def Let_def cell_def)

lemma visit_open_pq:
  "open_pq (visit a c n s) =
     (if target c n s \<and> \<not> sinks c n s
      then open_pq s @ [\<lparr>cx = cx c + dx n, cy = cy c + dy n,
                          cz = data (elevations s) (nb c n)\<rparr>]
      else open_pq s)"
  by (auto simp: visit_def target_def sinks_def nb_def Let_def cell_def)

lemma visit_counters [simp]:
  "clabel (visit a c n s) = clabel s"
  "processed_cells (visit a c n s) = processed_cells s"
  "pitc (visit a c n s) = pitc s"
  "openc (visit a c n s) = openc s"
  by (simp_all add: visit_def Let_def)

lemma fold_invariant:
  assumes "P s" and "\<And>x s. x \<in> set xs \<Longrightarrow> P s \<Longrightarrow> P (body x s)"
  shows "P (fold body xs s)"
  using assms by (induction xs arbitrary: s) simp_all

lemma ws_pass_measure:
  "next_cell cmp s = Some (c, s1) \<Longrightarrow> ws_measure (ws_body a c s1) < ws_measure s"
  using next_cell_measure [of cmp s c s1] ws_body_measure [of a c s1] by simp

lemma ws_loop_invariant:
  assumes "P s"
    and "\<And>s c s1. P s \<Longrightarrow> next_cell cmp s = Some (c, s1) \<Longrightarrow> P (ws_body a c s1)"
  shows "P (ws_loop cmp a s)"
  using assms(1)
proof (induction "ws_measure s" arbitrary: s rule: less_induct)
  case less
  show ?case
  proof (cases "next_cell cmp s")
    case None
    with less.prems show ?thesis by (simp add: ws_loop.simps)
  next
    case (Some r)
    obtain c s1 where r: "r = (c, s1)" by (cases r)
    have "P (ws_body a c s1)" using less.prems Some r by (auto intro: assms(2))
    moreover have "ws_measure (ws_body a c s1) < ws_measure s"
      using Some r by (auto intro: ws_pass_measure)
    ultimately have "P (ws_loop cmp a (ws_body a c s1))" by (rule less.hyps [rotated])
    with Some r show ?thesis by (simp add: ws_loop.simps)
  qed
qed

lemma ws_loop_ends: "next_cell cmp (ws_loop cmp a s) = None"
proof (induction "ws_measure s" arbitrary: s rule: less_induct)
  case less
  show ?case
  proof (cases "next_cell cmp s")
    case None
    then show ?thesis by (simp add: ws_loop.simps)
  next
    case (Some r)
    obtain c s1 where r: "r = (c, s1)" by (cases r)
    have "ws_measure (ws_body a c s1) < ws_measure s"
      using Some r by (auto intro: ws_pass_measure)
    then have "next_cell cmp (ws_loop cmp a (ws_body a c s1)) = None" by (rule less.hyps)
    with Some r show ?thesis by (simp add: ws_loop.simps)
  qed
qed

lemma next_cell_None: "next_cell cmp s = None \<longleftrightarrow> open_pq s = [] \<and> meander s = []"
  by (auto simp: next_cell_def Let_def split: list.splits)

subsection \<open>The invariant of the main loop\<close>

lemma visit_pass_inv:
  assumes inv: "ws_pass_inv elevs a c s"
  shows "ws_pass_inv elevs a c (visit a c n s)"
proof (cases "target c n s")
  case False
  with inv show ?thesis by (simp add: visit_skip)
next
  case True
  define p where "p = nb c n"
  define s' where "s' = visit a c n s"
  define z where "z = (if sinks c n s then cz c else data (elevations s) p)"
  from inv have I: "ws_inv elevs a s" and cc: "closed_2d s (cx c, cy c)"
    and cz: "a \<longrightarrow> cz c = data (elevations s) (cx c, cy c)"
    and cl: "data (labels s) (cx c, cy c) = - 1
               \<longrightarrow> data (elevations s) (cx c, cy c) = no_data elevs"
    by (simp_all add: ws_pass_inv_def)
  from I have dims: "width (elevations s) = width elevs" "height (elevations s) = height elevs"
    "no_data (elevations s) = no_data elevs" "no_data (labels s) = - 1"
    and Q: "\<forall>e \<in> queued s. in_grid elevs (cx e) (cy e) \<and> closed_2d s (cx e, cy e)
              \<and> (a \<longrightarrow> cz e = data (elevations s) (cx e, cy e))"
    and U: "\<forall>p. \<not> closed_2d s p \<longrightarrow> data (labels s) p = - 1 \<and> data (elevations s) p = data elevs p"
    and L: "1 \<le> clabel s"
      "\<forall>p. data (labels s) p = - 1 \<or> (1 \<le> data (labels s) p \<and> data (labels s) p < clabel s)"
    and E: "\<forall>p. data elevs p \<le> data (elevations s) p"
    and N: "\<forall>p. data elevs p = no_data elevs \<and> data (labels s) p = - 1
              \<longrightarrow> data (elevations s) p = no_data elevs"
    by (simp_all add: ws_inv_def)
  from True have pin: "in_grid elevs (fst p) (snd p)" and pun: "\<not> closed_2d s p"
    using dims by (simp_all add: target_def p_def nb_def in_grid_def)
  have pc: "p \<noteq> (cx c, cy c)" using pun cc by auto
  have lab: "data (labels s') = (data (labels s))(p := data (labels s) (cx c, cy c))"
    and labnd: "no_data (labels s') = no_data (labels s)"
    using True by (simp_all add: s'_def visit_labels put_def cell_def p_def nb_def)
  have clo: "closed_2d s' = (closed_2d s)(p := True)"
    using True by (simp add: s'_def visit_closed p_def)
  have elv: "data (elevations s') = (if sinks c n s \<and> a then (data (elevations s))(p := cz c)
                                      else data (elevations s))"
    and eprops: "width (elevations s') = width (elevations s)"
      "height (elevations s') = height (elevations s)"
      "no_data (elevations s') = no_data (elevations s)"
    using True by (simp_all add: s'_def visit_elevations put_def p_def nb_def)
  have q: "queued s' = insert \<lparr>cx = fst p, cy = snd p, cz = z\<rparr> (queued s)"
    using True
    by (auto simp: s'_def queued_def visit_meander visit_open_pq p_def nb_def z_def)
  have cnt: "clabel s' = clabel s" by (simp add: s'_def)
  have ep: "data (elevations s) p = data elevs p" and lp: "data (labels s) p = - 1"
    using U pun by blast+
  have zle: "sinks c n s \<and> a \<longrightarrow> data elevs p \<le> cz c"
    using ep by (simp add: sinks_def p_def)
  have i1: "\<forall>e \<in> queued s'. in_grid elevs (cx e) (cy e) \<and> closed_2d s' (cx e, cy e)
              \<and> (a \<longrightarrow> cz e = data (elevations s') (cx e, cy e))"
  proof
    fix e assume "e \<in> queued s'"
    then consider "e = \<lparr>cx = fst p, cy = snd p, cz = z\<rparr>" | "e \<in> queued s"
      using q by auto
    then show "in_grid elevs (cx e) (cy e) \<and> closed_2d s' (cx e, cy e)
              \<and> (a \<longrightarrow> cz e = data (elevations s') (cx e, cy e))"
    proof cases
      case 1
      then show ?thesis using pin by (simp add: clo elv z_def)
    next
      case 2
      with Q have "in_grid elevs (cx e) (cy e)" "closed_2d s (cx e, cy e)"
        "a \<longrightarrow> cz e = data (elevations s) (cx e, cy e)" by auto
      moreover from this pun have "(cx e, cy e) \<noteq> p" by auto
      ultimately show ?thesis by (simp add: clo elv)
    qed
  qed
  have i2: "\<forall>r. \<not> closed_2d s' r \<longrightarrow> data (labels s') r = - 1 \<and> data (elevations s') r = data elevs r"
    using U by (simp add: clo lab elv)
  have i3: "\<forall>r. data (labels s') r = - 1 \<or> (1 \<le> data (labels s') r \<and> data (labels s') r < clabel s')"
    using L(2) by (simp add: lab cnt)
  have i4: "\<forall>r. data elevs r \<le> data (elevations s') r"
    using E zle by (simp add: elv)
  have i5: "\<forall>r. data elevs r = no_data elevs \<and> data (labels s') r = - 1
              \<longrightarrow> data (elevations s') r = no_data elevs"
  proof (intro allI impI)
    fix r assume r: "data elevs r = no_data elevs \<and> data (labels s') r = - 1"
    show "data (elevations s') r = no_data elevs"
    proof (cases "r = p")
      case False
      with r N [rule_format, of r] show ?thesis by (simp add: lab elv)
    next
      case True
      with r have "data (labels s) (cx c, cy c) = - 1" by (simp add: lab)
      with cl have "data (elevations s) (cx c, cy c) = no_data elevs" by simp
      with cz have "a \<longrightarrow> cz c = no_data elevs" by simp
      with r True ep show ?thesis by (simp add: elv)
    qed
  qed
  have "ws_inv elevs a s'"
    unfolding ws_inv_def
    using dims labnd eprops i1 i2 i3 i4 i5 L(1) cnt by simp
  moreover have "closed_2d s' (cx c, cy c)" using cc by (simp add: clo)
  moreover have "a \<longrightarrow> cz c = data (elevations s') (cx c, cy c)"
    using cz pc by (simp add: elv)
  moreover have "data (labels s') (cx c, cy c) = - 1
          \<longrightarrow> data (elevations s') (cx c, cy c) = no_data elevs"
    using cl pc by (simp add: elv lab)
  ultimately show ?thesis by (simp add: ws_pass_inv_def s'_def)
qed

lemma fold_visit_pass_inv:
  "ws_pass_inv elevs a c s \<Longrightarrow> ws_pass_inv elevs a c (fold (visit a c) ns s)"
  by (rule fold_invariant) (simp_all add: visit_pass_inv)

lemma next_cell_queued:
  assumes "next_cell cmp s = Some (c, s1)"
  shows "c \<in> queued s" and "queued s1 \<subseteq> queued s"
    and "elevations s1 = elevations s" and "labels s1 = labels s"
    and "closed_2d s1 = closed_2d s" and "clabel s1 = clabel s"
proof -
  show "c \<in> queued s"
  proof (cases "meander s")
    case (Cons m rest)
    with assms show ?thesis by (auto simp: next_cell_def queued_def)
  next
    case Nil
    with assms obtain d ds where q: "open_pq s = d # ds" and c: "c = pq_top cmp d ds"
      by (auto simp: next_cell_def Let_def split: list.splits)
    have "pq_top cmp d ds \<in> set (d # ds)" by (rule pq_top_in)
    with q c show ?thesis by (auto simp: queued_def)
  qed
  show "queued s1 \<subseteq> queued s"
    using assms set_remove1_subset [of "pq_top cmp (hd (open_pq s)) (tl (open_pq s))" "open_pq s"]
    by (auto simp: next_cell_def queued_def Let_def split: list.splits simp del: remove1.simps)
  show "elevations s1 = elevations s" "labels s1 = labels s"
    "closed_2d s1 = closed_2d s" "clabel s1 = clabel s"
    using assms by (auto simp: next_cell_def Let_def split: list.splits)
qed

lemma pass_start_inv:
  assumes inv: "ws_inv elevs a s" and nc: "next_cell cmp s = Some (c, s1)"
  shows "ws_pass_inv elevs a c (label_cell c (s1\<lparr>processed_cells := processed_cells s1 + 1\<rparr>))"
proof -
  define s2 where "s2 = s1\<lparr>processed_cells := processed_cells s1 + 1\<rparr>"
  note nq = next_cell_queued [OF nc]
  have f: "elevations s2 = elevations s" "labels s2 = labels s" "closed_2d s2 = closed_2d s"
    "clabel s2 = clabel s" "queued s2 \<subseteq> queued s"
    using nq by (simp_all add: s2_def queued_def)
  from inv have dims: "width (elevations s) = width elevs" "height (elevations s) = height elevs"
    "no_data (elevations s) = no_data elevs" "no_data (labels s) = - 1"
    and Q: "\<forall>e \<in> queued s. in_grid elevs (cx e) (cy e) \<and> closed_2d s (cx e, cy e)
              \<and> (a \<longrightarrow> cz e = data (elevations s) (cx e, cy e))"
    and U: "\<forall>p. \<not> closed_2d s p \<longrightarrow> data (labels s) p = - 1 \<and> data (elevations s) p = data elevs p"
    and L: "1 \<le> clabel s"
      "\<forall>p. data (labels s) p = - 1 \<or> (1 \<le> data (labels s) p \<and> data (labels s) p < clabel s)"
    and E: "\<forall>p. data elevs p \<le> data (elevations s) p"
    and N: "\<forall>p. data elevs p = no_data elevs \<and> data (labels s) p = - 1
              \<longrightarrow> data (elevations s) p = no_data elevs"
    by (simp_all add: ws_inv_def)
  from Q nq(1) have c: "in_grid elevs (cx c) (cy c)" "closed_2d s (cx c, cy c)"
    "a \<longrightarrow> cz c = data (elevations s) (cx c, cy c)" by auto
  define fresh where "fresh \<longleftrightarrow> data (labels s) (cx c, cy c) = - 1
                        \<and> data (elevations s) (cx c, cy c) \<noteq> no_data elevs"
  define s3 where "s3 = label_cell c s2"
  have g: "elevations s3 = elevations s" "closed_2d s3 = closed_2d s" "queued s3 \<subseteq> queued s"
    "no_data (labels s3) = - 1"
    "clabel s3 = (if fresh then clabel s + 1 else clabel s)"
    "data (labels s3) = (if fresh then (data (labels s))((cx c, cy c) := clabel s)
                         else data (labels s))"
    using f dims
    by (auto simp: s3_def label_cell_def fresh_def cell_def put_def queued_def)
  have i3: "\<forall>p. data (labels s3) p = - 1 \<or> (1 \<le> data (labels s3) p \<and> data (labels s3) p < clabel s3)"
  proof
    fix p
    from L(2) [rule_format, of p] L(1) show "data (labels s3) p = - 1
        \<or> (1 \<le> data (labels s3) p \<and> data (labels s3) p < clabel s3)"
      by (auto simp: g)
  qed
  have i2: "\<forall>p. \<not> closed_2d s3 p \<longrightarrow> data (labels s3) p = - 1 \<and> data (elevations s3) p = data elevs p"
  proof (intro allI impI)
    fix p assume "\<not> closed_2d s3 p"
    then have "\<not> closed_2d s p" "p \<noteq> (cx c, cy c)" using c(2) by (auto simp: g)
    with U [rule_format, of p] show "data (labels s3) p = - 1 \<and> data (elevations s3) p = data elevs p"
      by (simp add: g)
  qed
  have i5: "\<forall>p. data elevs p = no_data elevs \<and> data (labels s3) p = - 1
              \<longrightarrow> data (elevations s3) p = no_data elevs"
  proof (intro allI impI)
    fix p assume p: "data elevs p = no_data elevs \<and> data (labels s3) p = - 1"
    with L(1) have "data (labels s) p = - 1" by (auto simp: g split: if_splits)
    with p N [rule_format, of p] show "data (elevations s3) p = no_data elevs" by (simp add: g)
  qed
  have i1: "\<forall>e \<in> queued s3. in_grid elevs (cx e) (cy e) \<and> closed_2d s3 (cx e, cy e)
              \<and> (a \<longrightarrow> cz e = data (elevations s3) (cx e, cy e))"
    using Q g(3) by (simp add: g(1,2)) blast
  have "ws_inv elevs a s3"
    unfolding ws_inv_def using dims g(4) i1 i2 i3 i5 E L(1) by (simp add: g)
  moreover have "data (labels s3) (cx c, cy c) = - 1
          \<longrightarrow> data (elevations s3) (cx c, cy c) = no_data elevs"
    using L(1) by (auto simp: g fresh_def)
  ultimately have "ws_pass_inv elevs a c s3"
    using c by (simp add: ws_pass_inv_def g(1,2))
  then show ?thesis by (simp add: s3_def s2_def)
qed

lemma ws_body_inv:
  assumes "ws_inv elevs a s" and "next_cell cmp s = Some (c, s1)"
  shows "ws_inv elevs a (ws_body a c s1)"
proof -
  have "ws_pass_inv elevs a c (ws_body a c s1)"
    unfolding ws_body_def Let_def
    by (rule fold_visit_pass_inv) (rule pass_start_inv [OF assms])
  then show ?thesis by (simp add: ws_pass_inv_def)
qed

subsection \<open>The seeding\<close>

lemma seed_x_frame [simp]:
  "elevations (seed_x x s) = elevations s" "labels (seed_x x s) = labels s"
  "meander (seed_x x s) = meander s" "clabel (seed_x x s) = clabel s"
  "processed_cells (seed_x x s) = processed_cells s"
  "pitc (seed_x x s) = pitc s" "openc (seed_x x s) = openc s"
  by (simp_all add: seed_x_def Let_def)

lemma seed_y_frame [simp]:
  "elevations (seed_y y s) = elevations s" "labels (seed_y y s) = labels s"
  "meander (seed_y y s) = meander s" "clabel (seed_y y s) = clabel s"
  "processed_cells (seed_y y s) = processed_cells s"
  "pitc (seed_y y s) = pitc s" "openc (seed_y y s) = openc s"
  by (simp_all add: seed_y_def Let_def)

lemma fold_seed_x_frame [simp]:
  "elevations (fold seed_x xs s) = elevations s" "labels (fold seed_x xs s) = labels s"
  "meander (fold seed_x xs s) = meander s" "clabel (fold seed_x xs s) = clabel s"
  "processed_cells (fold seed_x xs s) = processed_cells s"
  "pitc (fold seed_x xs s) = pitc s" "openc (fold seed_x xs s) = openc s"
  by (induction xs arbitrary: s) simp_all

lemma fold_seed_y_frame [simp]:
  "elevations (fold seed_y ys s) = elevations s" "labels (fold seed_y ys s) = labels s"
  "meander (fold seed_y ys s) = meander s" "clabel (fold seed_y ys s) = clabel s"
  "processed_cells (fold seed_y ys s) = processed_cells s"
  "pitc (fold seed_y ys s) = pitc s" "openc (fold seed_y ys s) = openc s"
  by (induction ys arbitrary: s) simp_all

lemma fold_seed_x_open:
  "open_pq (fold seed_x xs s) =
     open_pq s @ concat (map (\<lambda>x. [\<lparr>cx = x, cy = 0, cz = cell (elevations s) x 0\<rparr>,
        \<lparr>cx = x, cy = int (height (elevations s)) - 1,
         cz = cell (elevations s) x (int (height (elevations s)) - 1)\<rparr>]) xs)"
  by (induction xs arbitrary: s) (simp_all add: seed_x_def Let_def)

lemma fold_seed_y_open:
  "open_pq (fold seed_y ys s) =
     open_pq s @ concat (map (\<lambda>y. [\<lparr>cx = 0, cy = y, cz = cell (elevations s) 0 y\<rparr>,
        \<lparr>cx = int (width (elevations s)) - 1, cy = y,
         cz = cell (elevations s) (int (width (elevations s)) - 1) y\<rparr>]) ys)"
  by (induction ys arbitrary: s) (simp_all add: seed_y_def Let_def)

lemma fold_seed_x_closed:
  "closed_2d (fold seed_x xs s) p \<longleftrightarrow>
     closed_2d s p \<or> (\<exists>x \<in> set xs. p = (x, 0) \<or> p = (x, int (height (elevations s)) - 1))"
  by (induction xs arbitrary: s) (auto simp: seed_x_def Let_def)

lemma fold_seed_y_closed:
  "closed_2d (fold seed_y ys s) p \<longleftrightarrow>
     closed_2d s p \<or> (\<exists>y \<in> set ys. p = (0, y) \<or> p = (int (width (elevations s)) - 1, y))"
  by (induction ys arbitrary: s) (auto simp: seed_y_def Let_def)

lemma seed_frame [simp]:
  "elevations (seed s) = elevations s" "labels (seed s) = labels s"
  "meander (seed s) = meander s" "clabel (seed s) = clabel s"
  "processed_cells (seed s) = processed_cells s"
  "pitc (seed s) = pitc s" "openc (seed s) = openc s"
  by (simp_all add: seed_def Let_def)

lemma ws_start_fields [simp]:
  "elevations (ws_start e l) = e" "data (labels (ws_start e l)) = (\<lambda>_. - 1)"
  "no_data (labels (ws_start e l)) = - 1" "width (labels (ws_start e l)) = width e"
  "height (labels (ws_start e l)) = height e" "cellsize (labels (ws_start e l)) = cellsize e"
  "closed_2d (ws_start e l) = (\<lambda>_. False)" "open_pq (ws_start e l) = []"
  "meander (ws_start e l) = []" "clabel (ws_start e l) = 1"
  "processed_cells (ws_start e l) = 0" "pitc (ws_start e l) = 0" "openc (ws_start e l) = 0"
  by (simp_all add: ws_start_def init_def copyprops_def)

lemma seed_open: "open_pq (seed (ws_start e l)) = seed_entries e"
  by (simp add: seed_def Let_def fold_seed_x_open fold_seed_y_open seed_entries_def ws_start_def)

lemma seed_closed:
  "closed_2d (seed (ws_start e l)) p \<longleftrightarrow>
     (\<exists>x \<in> set (map int [0..<width e]). p = (x, 0) \<or> p = (x, int (height e) - 1))
     \<or> (\<exists>y \<in> set (map int [1..<height e - 1]). p = (0, y) \<or> p = (int (width e) - 1, y))"
  by (simp add: seed_def Let_def fold_seed_x_closed fold_seed_y_closed ws_start_def)

lemma seed_entries_closed:
  "c \<in> set (seed_entries e) \<Longrightarrow> closed_2d (seed (ws_start e l)) (cx c, cy c)"
  unfolding seed_closed by (auto simp: seed_entries_def)

lemma seed_entries_cz: "c \<in> set (seed_entries e) \<Longrightarrow> cz c = data e (cx c, cy c)"
  by (auto simp: seed_entries_def cell_def)

text \<open>The indices of the seeding are inside the grid, except on the grids that
  \<open>find_watersheds\<close> excludes, where one of them is outside.\<close>

lemma seed_in_grid:
  assumes "\<not> ((0 < width e \<and> height e = 0) \<or> (width e = 0 \<and> 2 < height e))"
    and "c \<in> set (seed_entries e)"
  shows "in_grid e (cx c) (cy c)"
  using assms by (auto simp: seed_entries_def in_grid_def)

lemma seed_outside_grid:
  assumes "(0 < width e \<and> height e = 0) \<or> (width e = 0 \<and> 2 < height e)"
  shows "\<exists>c \<in> set (seed_entries e). \<not> in_grid e (cx c) (cy c)"
proof -
  from assms consider "0 < width e \<and> height e = 0" | "width e = 0 \<and> 2 < height e" by blast
  then show ?thesis
  proof cases
    case 1
    then have "\<lparr>cx = 0, cy = 0, cz = cell e 0 0\<rparr> \<in> set (seed_entries e)"
      by (auto simp: seed_entries_def intro!: bexI [of _ 0])
    then show ?thesis using 1 by (auto simp: in_grid_def intro!: bexI)
  next
    case 2
    then have "\<lparr>cx = 0, cy = 1, cz = cell e 0 1\<rparr> \<in> set (seed_entries e)"
      by (auto simp: seed_entries_def intro!: bexI [of _ 1])
    then show ?thesis using 2 by (auto simp: in_grid_def intro!: bexI)
  qed
qed

lemma ws_inv_seed:
  assumes "\<not> ((0 < width e \<and> height e = 0) \<or> (width e = 0 \<and> 2 < height e))"
  shows "ws_inv e a (seed (ws_start e l))"
proof -
  let ?s = "seed (ws_start e l)"
  have q: "queued ?s = set (seed_entries e)"
    by (simp add: queued_def seed_open)
  have "\<forall>c \<in> queued ?s. in_grid e (cx c) (cy c) \<and> closed_2d ?s (cx c, cy c)
          \<and> (a \<longrightarrow> cz c = data e (cx c, cy c))"
    unfolding q using seed_in_grid [OF assms] seed_entries_closed seed_entries_cz by blast
  then show ?thesis
    unfolding ws_inv_def by simp
qed

lemma find_watersheds_Inr:
  "find_watersheds cmp e l a = Inr s \<longleftrightarrow>
     \<not> ((0 < width e \<and> height e = 0) \<or> (width e = 0 \<and> 2 < height e))
     \<and> s = ws_loop cmp a (seed (ws_start e l))"
  by (auto simp: find_watersheds_def)

lemma find_watersheds_inv:
  assumes "find_watersheds cmp e l a = Inr s"
  shows "ws_inv e a s" and "open_pq s = []" and "meander s = []"
proof -
  from assms have g: "\<not> ((0 < width e \<and> height e = 0) \<or> (width e = 0 \<and> 2 < height e))"
    and s: "s = ws_loop cmp a (seed (ws_start e l))"
    by (simp_all add: find_watersheds_Inr)
  show "ws_inv e a s"
    unfolding s
    by (rule ws_loop_invariant [where P = "ws_inv e a"]) (rule ws_inv_seed [OF g], rule ws_body_inv)
  have "next_cell cmp s = None" unfolding s by (rule ws_loop_ends)
  then show "open_pq s = []" and "meander s = []" by (simp_all add: next_cell_None)
qed

subsection \<open>The states of a run\<close>

lemma ws_reach_loop: "ws_reach cmp a s0 s \<Longrightarrow> ws_loop cmp a s = ws_loop cmp a s0"
proof (induction rule: ws_reach.induct)
  case start
  show ?case by simp
next
  case (pass s c s1)
  have "ws_loop cmp a s = ws_loop cmp a (ws_body a c s1)"
    using pass.hyps(2) by (simp add: ws_loop.simps [of cmp a s])
  with pass.IH show ?case by simp
qed

lemma ws_reach_inv:
  "ws_reach cmp a s0 s \<Longrightarrow> ws_inv e a s0 \<Longrightarrow> ws_inv e a s"
  by (induction rule: ws_reach.induct) (simp_all add: ws_body_inv)

text \<open>What one pass does to the grids: the frame of \<open>label_cell\<close> and of the loop over
  the neighbours.\<close>

lemma label_cell_frame [simp]:
  "elevations (label_cell c s) = elevations s" "closed_2d (label_cell c s) = closed_2d s"
  "open_pq (label_cell c s) = open_pq s" "meander (label_cell c s) = meander s"
  "processed_cells (label_cell c s) = processed_cells s"
  "pitc (label_cell c s) = pitc s" "openc (label_cell c s) = openc s"
  "no_data (labels (label_cell c s)) = no_data (labels s)"
  by (simp_all add: label_cell_def)

lemma grows_refl: "grows c s s"
  by (simp add: grows_def)

lemma grows_visit:
  assumes "grows c s s'"
  shows "grows c s (visit a c n s')"
proof (cases "target c n s'")
  case False
  with assms show ?thesis by (simp add: visit_skip)
next
  case True
  define p where "p = nb c n"
  define v where "v = visit a c n s'"
  from assms obtain ms os where ms: "meander s' = ms @ meander s"
    and os: "open_pq s' = open_pq s @ os"
    and new: "\<forall>e \<in> set ms \<union> set os. cz c \<le> cz e \<and> \<not> closed_2d s (cx e, cy e)
                \<and> closed_2d s' (cx e, cy e)"
    and cl: "\<forall>p. closed_2d s p \<longrightarrow> closed_2d s' p \<and> data (elevations s') p = data (elevations s) p"
    and mono: "\<forall>p. data (elevations s) p \<le> data (elevations s') p"
    unfolding grows_def by blast
  from True have pun': "\<not> closed_2d s' p" by (simp add: target_def p_def)
  with cl have pun: "\<not> closed_2d s p" by blast
  have clo: "closed_2d v = (closed_2d s')(p := True)"
    using True by (simp add: v_def visit_closed p_def)
  have elv: "data (elevations v) = (if sinks c n s' \<and> a then (data (elevations s'))(p := cz c)
                                      else data (elevations s'))"
    using True by (simp add: v_def visit_elevations put_def p_def nb_def)
  define e where "e = \<lparr>cx = fst p, cy = snd p,
                        cz = (if sinks c n s' then cz c else data (elevations s') p)\<rparr>"
  have ez: "cz c \<le> cz e" by (simp add: e_def sinks_def p_def)
  have ec: "(cx e, cy e) = p" by (simp add: e_def)
  have mv: "meander v = (if sinks c n s' then e # ms else ms) @ meander s"
    using True by (simp add: v_def visit_meander ms e_def p_def nb_def)
  have ov: "open_pq v = open_pq s @ (if sinks c n s' then os else os @ [e])"
    using True by (simp add: v_def visit_open_pq os e_def p_def nb_def)
  have newv: "\<forall>d \<in> set (if sinks c n s' then e # ms else ms)
                    \<union> set (if sinks c n s' then os else os @ [e]).
                cz c \<le> cz d \<and> \<not> closed_2d s (cx d, cy d) \<and> closed_2d v (cx d, cy d)"
  proof
    fix d assume "d \<in> set (if sinks c n s' then e # ms else ms)
                    \<union> set (if sinks c n s' then os else os @ [e])"
    then consider "d = e" | "d \<in> set ms \<union> set os" by (auto split: if_splits)
    then show "cz c \<le> cz d \<and> \<not> closed_2d s (cx d, cy d) \<and> closed_2d v (cx d, cy d)"
    proof cases
      case 1
      with ez ec pun show ?thesis by (simp add: clo)
    next
      case 2
      with new show ?thesis by (simp add: clo)
    qed
  qed
  have clv: "\<forall>r. closed_2d s r \<longrightarrow> closed_2d v r \<and> data (elevations v) r = data (elevations s) r"
  proof (intro allI impI)
    fix r assume r: "closed_2d s r"
    with pun have "r \<noteq> p" by auto
    with r cl [rule_format, of r] show "closed_2d v r \<and> data (elevations v) r = data (elevations s) r"
      by (simp add: clo elv)
  qed
  have monov: "\<forall>r. data (elevations s) r \<le> data (elevations v) r"
  proof
    fix r
    have "sinks c n s' \<Longrightarrow> data (elevations s') p \<le> cz c" by (simp add: sinks_def p_def)
    with mono [rule_format, of r] mono [rule_format, of p]
    show "data (elevations s) r \<le> data (elevations v) r"
      by (auto simp: elv)
  qed
  show ?thesis
    unfolding grows_def v_def [symmetric] using mv ov newv clv monov by blast
qed

lemma grows_fold: "grows c s (fold (visit a c) ns s)"
  by (rule fold_invariant [where P = "grows c s"]) (simp_all add: grows_refl grows_visit)

lemma grows_body: "grows c s (ws_body a c s)"
proof -
  let ?s3 = "label_cell c (s\<lparr>processed_cells := processed_cells s + 1\<rparr>)"
  have "grows c ?s3 (fold (visit a c) [1..<9] ?s3)" by (rule grows_fold)
  then show ?thesis by (simp add: grows_def ws_body_def Let_def)
qed

text \<open>Without \<^verbatim>\<open>alter_elevations\<close> no pass writes an elevation.\<close>

lemma visit_elevations_False [simp]: "elevations (visit False c n s) = elevations s"
  by (simp add: visit_elevations)

lemma ws_body_elevations_False:
  "next_cell cmp s = Some (c, s1) \<Longrightarrow> elevations (ws_body False c s1) = elevations s"
proof -
  assume nc: "next_cell cmp s = Some (c, s1)"
  have "elevations (ws_body False c s1)
          = elevations (label_cell c (s1\<lparr>processed_cells := processed_cells s1 + 1\<rparr>))"
    unfolding ws_body_def Let_def
    by (rule fold_preserve) simp
  with next_cell_queued(3) [OF nc] show ?thesis by simp
qed

lemma relabels_refl: "relabels c s s"
  by (simp add: relabels_def)

lemma relabels_visit:
  assumes r: "relabels c s s'" and cc: "closed_2d s (cx c, cy c)" and n: "1 \<le> n \<and> n \<le> 8"
  shows "relabels c s (visit a c n s')"
proof (cases "target c n s'")
  case False
  with r show ?thesis by (simp add: visit_skip)
next
  case True
  define p where "p = nb c n"
  define v where "v = visit a c n s'"
  from r have cl: "\<forall>p. closed_2d s p \<longrightarrow> closed_2d s' p"
    and ch: "\<forall>p. data (labels s') p \<noteq> data (labels s) p \<longrightarrow>
            (\<exists>n. 1 \<le> n \<and> n \<le> 8 \<and> p = nb c n) \<and> in_grid (elevations s) (fst p) (snd p)
            \<and> \<not> closed_2d s p \<and> data (labels s') p = data (labels s) (cx c, cy c)"
    and fr: "no_data (labels s') = no_data (labels s)" "clabel s' = clabel s"
      "width (elevations s') = width (elevations s)"
      "height (elevations s') = height (elevations s)"
    by (simp_all add: relabels_def)
  from True have pun': "\<not> closed_2d s' p" and pin: "in_grid (elevations s) (fst p) (snd p)"
    using fr by (simp_all add: target_def p_def nb_def in_grid_def)
  with cl have pun: "\<not> closed_2d s p" by blast
  have lc: "data (labels s') (cx c, cy c) = data (labels s) (cx c, cy c)"
    using ch [rule_format, of "(cx c, cy c)"] cc by blast
  have lab: "data (labels v) = (data (labels s'))(p := data (labels s) (cx c, cy c))"
    and labnd: "no_data (labels v) = no_data (labels s')"
    using True lc by (simp_all add: v_def visit_labels put_def cell_def p_def nb_def)
  have clo: "closed_2d v = (closed_2d s')(p := True)"
    using True by (simp add: v_def visit_closed p_def)
  have c1: "\<forall>r. closed_2d s r \<longrightarrow> closed_2d v r"
    using cl by (simp add: clo)
  have c2: "\<forall>r. data (labels v) r \<noteq> data (labels s) r \<longrightarrow>
            (\<exists>n. 1 \<le> n \<and> n \<le> 8 \<and> r = nb c n) \<and> in_grid (elevations s) (fst r) (snd r)
            \<and> \<not> closed_2d s r \<and> data (labels v) r = data (labels s) (cx c, cy c)"
  proof (intro allI impI)
    fix r assume d: "data (labels v) r \<noteq> data (labels s) r"
    show "(\<exists>n. 1 \<le> n \<and> n \<le> 8 \<and> r = nb c n) \<and> in_grid (elevations s) (fst r) (snd r)
            \<and> \<not> closed_2d s r \<and> data (labels v) r = data (labels s) (cx c, cy c)"
    proof (cases "r = p")
      case True
      with n pin pun show ?thesis by (auto simp: lab p_def)
    next
      case False
      with d ch [rule_format, of r] show ?thesis by (simp add: lab)
    qed
  qed
  show ?thesis
    unfolding relabels_def v_def [symmetric]
    using c1 c2 labnd fr by (simp add: v_def)
qed

lemma relabels_fold:
  assumes "closed_2d s (cx c, cy c)"
  shows "relabels c s (fold (visit a c) [1..<9] s)"
  by (rule fold_invariant [where P = "relabels c s"])
     (auto simp: relabels_refl intro: relabels_visit [OF _ assms])

text \<open>What one pass of the main loop does to the labels.\<close>

lemma pass_labels:
  assumes inv: "ws_inv e a s" and nc: "next_cell cmp s = Some (c, s1)"
  defines "fresh \<equiv> data (labels s) (cx c, cy c) = - 1
                    \<and> data (elevations s) (cx c, cy c) \<noteq> no_data (elevations s)"
  shows "clabel (ws_body a c s1) = (if fresh then clabel s + 1 else clabel s)"
    and "data (labels (ws_body a c s1)) (cx c, cy c)
           = (if fresh then clabel s else data (labels s) (cx c, cy c))"
    and "\<forall>p. p \<noteq> (cx c, cy c) \<and> data (labels (ws_body a c s1)) p \<noteq> data (labels s) p \<longrightarrow>
            (\<exists>n. 1 \<le> n \<and> n \<le> 8 \<and> p = nb c n) \<and> in_grid e (fst p) (snd p)
            \<and> \<not> closed_2d s p
            \<and> data (labels (ws_body a c s1)) p = data (labels (ws_body a c s1)) (cx c, cy c)"
    and "\<forall>p. 0 < data (labels s) p \<longrightarrow> data (labels (ws_body a c s1)) p = data (labels s) p"
proof -
  define s3 where "s3 = label_cell c (s1\<lparr>processed_cells := processed_cells s1 + 1\<rparr>)"
  define s' where "s' = ws_body a c s1"
  note nq = next_cell_queued [OF nc]
  from inv have nd: "no_data (labels s) = - 1"
    and dims: "width (elevations s) = width e" "height (elevations s) = height e"
    and Q: "\<forall>e' \<in> queued s. closed_2d s (cx e', cy e')"
    and U: "\<forall>p. \<not> closed_2d s p \<longrightarrow> data (labels s) p = - 1"
    by (simp_all add: ws_inv_def)
  from Q nq(1) have cc: "closed_2d s (cx c, cy c)" by blast
  have l3: "data (labels s3) = (if fresh then (data (labels s))((cx c, cy c) := clabel s)
                                else data (labels s))"
    and c3: "clabel s3 = (if fresh then clabel s + 1 else clabel s)"
    and f3: "closed_2d s3 = closed_2d s" "elevations s3 = elevations s"
    using nq nd by (auto simp: s3_def label_cell_def fresh_def cell_def put_def)
  have s': "s' = fold (visit a c) [1..<9] s3"
    by (simp add: s'_def ws_body_def s3_def Let_def)
  have "relabels c s3 s'"
    unfolding s' by (rule relabels_fold) (simp add: f3 cc)
  then have ch: "\<forall>p. data (labels s') p \<noteq> data (labels s3) p \<longrightarrow>
            (\<exists>n. 1 \<le> n \<and> n \<le> 8 \<and> p = nb c n) \<and> in_grid (elevations s3) (fst p) (snd p)
            \<and> \<not> closed_2d s3 p \<and> data (labels s') p = data (labels s3) (cx c, cy c)"
    and cl: "clabel s' = clabel s3"
    by (simp_all add: relabels_def)
  have lc: "data (labels s') (cx c, cy c) = data (labels s3) (cx c, cy c)"
    using ch [rule_format, of "(cx c, cy c)"] cc f3 by auto
  show "clabel (ws_body a c s1) = (if fresh then clabel s + 1 else clabel s)"
    using cl c3 by (simp add: s'_def)
  show "data (labels (ws_body a c s1)) (cx c, cy c)
           = (if fresh then clabel s else data (labels s) (cx c, cy c))"
    using lc by (simp add: l3 s'_def)
  show "\<forall>p. p \<noteq> (cx c, cy c) \<and> data (labels (ws_body a c s1)) p \<noteq> data (labels s) p \<longrightarrow>
            (\<exists>n. 1 \<le> n \<and> n \<le> 8 \<and> p = nb c n) \<and> in_grid e (fst p) (snd p)
            \<and> \<not> closed_2d s p
            \<and> data (labels (ws_body a c s1)) p = data (labels (ws_body a c s1)) (cx c, cy c)"
  proof (intro allI impI)
    fix p assume p: "p \<noteq> (cx c, cy c) \<and> data (labels (ws_body a c s1)) p \<noteq> data (labels s) p"
    then have "data (labels s') p \<noteq> data (labels s3) p" by (simp add: l3 s'_def)
    with ch [rule_format, of p] lc dims
    show "(\<exists>n. 1 \<le> n \<and> n \<le> 8 \<and> p = nb c n) \<and> in_grid e (fst p) (snd p)
            \<and> \<not> closed_2d s p
            \<and> data (labels (ws_body a c s1)) p = data (labels (ws_body a c s1)) (cx c, cy c)"
      by (simp add: f3 s'_def in_grid_def)
  qed
  show "\<forall>p. 0 < data (labels s) p \<longrightarrow> data (labels (ws_body a c s1)) p = data (labels s) p"
  proof (intro allI impI)
    fix p assume pos: "0 < data (labels s) p"
    then have cp: "closed_2d s p" using U [rule_format, of p] by auto
    have "data (labels s3) p = data (labels s) p"
      using pos by (auto simp: l3 fresh_def)
    moreover have "data (labels s') p = data (labels s3) p"
      using ch [rule_format, of p] cp by (auto simp: f3)
    ultimately show "data (labels (ws_body a c s1)) p = data (labels s) p"
      by (simp add: s'_def)
  qed
qed

text \<open>From a state of the run to the end of the run: a positive label stays, a closed
  cell stays closed and keeps its elevation.\<close>

lemma final_label:
  assumes "ws_inv e a s" and "0 < data (labels s) p"
  shows "data (labels (ws_loop cmp a s)) p = data (labels s) p"
proof -
  have "ws_inv e a (ws_loop cmp a s)
        \<and> data (labels (ws_loop cmp a s)) p = data (labels s) p"
  proof (rule ws_loop_invariant [where P = "\<lambda>t. ws_inv e a t \<and> data (labels t) p = data (labels s) p"])
    show "ws_inv e a s \<and> data (labels s) p = data (labels s) p" using assms by simp
  next
    fix t c t1
    assume t: "ws_inv e a t \<and> data (labels t) p = data (labels s) p"
      and nc: "next_cell cmp t = Some (c, t1)"
    from t assms(2) have "0 < data (labels t) p" by simp
    with pass_labels(4) [OF _ nc, of e a] t
    have "data (labels (ws_body a c t1)) p = data (labels t) p" by blast
    with t ws_body_inv [OF _ nc, of e a]
    show "ws_inv e a (ws_body a c t1) \<and> data (labels (ws_body a c t1)) p = data (labels s) p"
      by simp
  qed
  then show ?thesis by simp
qed

lemma pass_closed:
  assumes nc: "next_cell cmp s = Some (c, s1)" and cp: "closed_2d s p"
  shows "closed_2d (ws_body a c s1) p"
    and "data (elevations (ws_body a c s1)) p = data (elevations s) p"
proof -
  note nq = next_cell_queued [OF nc]
  have "grows c s1 (ws_body a c s1)" by (rule grows_body)
  then have "\<forall>p. closed_2d s1 p \<longrightarrow> closed_2d (ws_body a c s1) p
               \<and> data (elevations (ws_body a c s1)) p = data (elevations s1) p"
    by (simp add: grows_def)
  from this [rule_format, of p] cp nq
  show "closed_2d (ws_body a c s1) p"
    and "data (elevations (ws_body a c s1)) p = data (elevations s) p"
    by simp_all
qed

lemma final_closed:
  assumes "closed_2d s p"
  shows "closed_2d (ws_loop cmp a s) p
         \<and> data (elevations (ws_loop cmp a s)) p = data (elevations s) p"
proof (rule ws_loop_invariant [where P = "\<lambda>t. closed_2d t p
          \<and> data (elevations t) p = data (elevations s) p"])
  show "closed_2d s p \<and> data (elevations s) p = data (elevations s) p" using assms by simp
next
  fix t c t1
  assume t: "closed_2d t p \<and> data (elevations t) p = data (elevations s) p"
    and nc: "next_cell cmp t = Some (c, t1)"
  with pass_closed [OF nc, of p a]
  show "closed_2d (ws_body a c t1) p
        \<and> data (elevations (ws_body a c t1)) p = data (elevations s) p"
    by simp
qed

subsection \<open>Discovery\<close>

lemma pushed_props:
  assumes "e \<in> set (pushed a c s1)"
  shows "cz c \<le> cz e" and "\<not> closed_2d s1 (cx e, cy e)"
    and "closed_2d (ws_body a c s1) (cx e, cy e)"
proof -
  have "grows c s1 (ws_body a c s1)" by (rule grows_body)
  then obtain ms os where ms: "meander (ws_body a c s1) = ms @ meander s1"
    and os: "open_pq (ws_body a c s1) = open_pq s1 @ os"
    and new: "\<forall>e \<in> set ms \<union> set os. cz c \<le> cz e \<and> \<not> closed_2d s1 (cx e, cy e)
                \<and> closed_2d (ws_body a c s1) (cx e, cy e)"
    unfolding grows_def by blast
  have "pushed a c s1 = ms @ os" by (simp add: pushed_def Let_def ms os)
  with assms new show "cz c \<le> cz e" and "\<not> closed_2d s1 (cx e, cy e)"
    and "closed_2d (ws_body a c s1) (cx e, cy e)"
    by auto
qed

lemma discovery_path_sorted:
  "discovery_path cmp a s0 path \<Longrightarrow> sorted (map cz path) \<and> path \<noteq> [] \<and> hd path \<in> set (open_pq s0)"
proof (induction rule: discovery_path.induct)
  case (seeded e)
  then show ?case by simp
next
  case (discovered path c s s1 e)
  from discovered.hyps(4) have "cz c \<le> cz e" by (rule pushed_props)
  with discovered.IH show ?case
    by (cases path) (auto simp: sorted_append)
qed

subsection \<open>The elevations\<close>

text \<open>
  C9: with \<^verbatim>\<open>alter_elevations = false\<close> the elevation grid after the call is the
  elevation grid before the call.
\<close>

theorem find_watersheds_keeps_elevations:
  assumes "find_watersheds cmp elevs labs False = Inr s"
  shows "elevations s = elevs"
proof -
  from assms have s: "s = ws_loop cmp False (seed (ws_start elevs labs))"
    by (simp add: find_watersheds_Inr)
  show ?thesis
    unfolding s
    by (rule ws_loop_invariant [where P = "\<lambda>t. elevations t = elevs"])
       (simp_all add: ws_body_elevations_False)
qed

text \<open>
  C2: with \<^verbatim>\<open>alter_elevations = true\<close> the elevation of every cell after the call is
  at least its elevation before the call, and along every discovery path, from a seeded
  entry of the boundary on, the flood elevations that the entries carry never decrease;
  the seeded entry carries the elevation of its own cell.
\<close>

theorem flood_fill_monotone:
  assumes "find_watersheds cmp elevs labs True = Inr s"
  shows "(\<forall>x y. cell elevs x y \<le> cell (elevations s) x y)
         \<and> (\<forall>path. discovery_path cmp True (seed (ws_start elevs labs)) path \<longrightarrow>
               sorted (map cz path)
               \<and> cz (hd path) = cell elevs (cx (hd path)) (cy (hd path)))"
proof -
  from find_watersheds_inv(1) [OF assms]
  have "\<forall>p. data elevs p \<le> data (elevations s) p" by (simp add: ws_inv_def)
  then have 1: "\<forall>x y. cell elevs x y \<le> cell (elevations s) x y" by (simp add: cell_def)
  have 2: "\<forall>path. discovery_path cmp True (seed (ws_start elevs labs)) path \<longrightarrow>
               sorted (map cz path)
               \<and> cz (hd path) = cell elevs (cx (hd path)) (cy (hd path))"
  proof (intro allI impI)
    fix path assume "discovery_path cmp True (seed (ws_start elevs labs)) path"
    from discovery_path_sorted [OF this]
    have "sorted (map cz path)" and "hd path \<in> set (seed_entries elevs)"
      by (simp_all add: seed_open)
    with seed_entries_cz [of "hd path" elevs]
    show "sorted (map cz path) \<and> cz (hd path) = cell elevs (cx (hd path)) (cy (hd path))"
      by (simp add: cell_def)
  qed
  from 1 2 show ?thesis by blast
qed

subsection \<open>The labels\<close>

text \<open>
  C4: the label counter starts at 1. In every pass of the main loop of a run, a cell whose
  label the pass changes is either the popped cell, which had no label and holds data and
  receives the value of the counter, a positive integer above every label of the grid,
  the counter then going up by one; or a neighbour of the popped cell that was not closed,
  which receives the label of the popped cell. A cell that holds a positive label keeps
  it in the pass and up to the end of the run.
\<close>

theorem label_assignment:
  assumes "find_watersheds cmp elevs labs a = Inr sf"
    and "ws_reach cmp a (seed (ws_start elevs labs)) s"
    and "next_cell cmp s = Some (c, s1)"
  shows "clabel (seed (ws_start elevs labs)) = 1
     \<and> (\<forall>x y. cell (labels (ws_body a c s1)) x y \<noteq> cell (labels s) x y \<longrightarrow>
          ((x, y) = (cx c, cy c) \<and> cell (labels s) x y = no_data (labels s)
             \<and> cell (elevations s) x y \<noteq> no_data (elevations s)
             \<and> cell (labels (ws_body a c s1)) x y = clabel s
             \<and> clabel (ws_body a c s1) = clabel s + 1 \<and> 1 \<le> clabel s
             \<and> (\<forall>u v. cell (labels s) u v < clabel s))
          \<or> ((\<exists>n. 1 \<le> n \<and> n \<le> 8 \<and> (x, y) = nb c n) \<and> in_grid elevs x y
              \<and> \<not> closed_2d s (x, y)
              \<and> cell (labels (ws_body a c s1)) x y = cell (labels (ws_body a c s1)) (cx c) (cy c)))
     \<and> (\<forall>x y. 0 < cell (labels s) x y \<longrightarrow>
            cell (labels (ws_body a c s1)) x y = cell (labels s) x y
            \<and> cell (labels sf) x y = cell (labels s) x y)"
proof -
  let ?s0 = "seed (ws_start elevs labs)"
  from assms(1) have g: "\<not> ((0 < width elevs \<and> height elevs = 0)
                            \<or> (width elevs = 0 \<and> 2 < height elevs))"
    and sf: "sf = ws_loop cmp a ?s0"
    by (simp_all add: find_watersheds_Inr)
  have inv: "ws_inv elevs a s"
    by (rule ws_reach_inv [OF assms(2)]) (rule ws_inv_seed [OF g])
  from inv have nd: "no_data (labels s) = - 1"
    and L: "1 \<le> clabel s"
      "\<forall>p. data (labels s) p = - 1 \<or> (1 \<le> data (labels s) p \<and> data (labels s) p < clabel s)"
    by (simp_all add: ws_inv_def)
  note pl = pass_labels [OF inv assms(3)]
  have 1: "clabel ?s0 = 1" by simp
  have 2: "\<forall>x y. cell (labels (ws_body a c s1)) x y \<noteq> cell (labels s) x y \<longrightarrow>
          ((x, y) = (cx c, cy c) \<and> cell (labels s) x y = no_data (labels s)
             \<and> cell (elevations s) x y \<noteq> no_data (elevations s)
             \<and> cell (labels (ws_body a c s1)) x y = clabel s
             \<and> clabel (ws_body a c s1) = clabel s + 1 \<and> 1 \<le> clabel s
             \<and> (\<forall>u v. cell (labels s) u v < clabel s))
          \<or> ((\<exists>n. 1 \<le> n \<and> n \<le> 8 \<and> (x, y) = nb c n) \<and> in_grid elevs x y
              \<and> \<not> closed_2d s (x, y)
              \<and> cell (labels (ws_body a c s1)) x y = cell (labels (ws_body a c s1)) (cx c) (cy c))"
  proof (intro allI impI)
    fix x y assume d: "cell (labels (ws_body a c s1)) x y \<noteq> cell (labels s) x y"
    show "((x, y) = (cx c, cy c) \<and> cell (labels s) x y = no_data (labels s)
             \<and> cell (elevations s) x y \<noteq> no_data (elevations s)
             \<and> cell (labels (ws_body a c s1)) x y = clabel s
             \<and> clabel (ws_body a c s1) = clabel s + 1 \<and> 1 \<le> clabel s
             \<and> (\<forall>u v. cell (labels s) u v < clabel s))
          \<or> ((\<exists>n. 1 \<le> n \<and> n \<le> 8 \<and> (x, y) = nb c n) \<and> in_grid elevs x y
              \<and> \<not> closed_2d s (x, y)
              \<and> cell (labels (ws_body a c s1)) x y = cell (labels (ws_body a c s1)) (cx c) (cy c))"
    proof (cases "(x, y) = (cx c, cy c)")
      case True
      have lt: "\<forall>u v. cell (labels s) u v < clabel s"
      proof (intro allI)
        fix u v
        from L(2) [rule_format, of "(u, v)"] L(1) show "cell (labels s) u v < clabel s"
          by (auto simp: cell_def)
      qed
      from True d pl(1,2) nd L(1) lt show ?thesis
        by (auto simp: cell_def split: if_splits)
    next
      case False
      with d pl(3) [rule_format, of "(x, y)"] show ?thesis
        by (simp add: cell_def)
    qed
  qed
  have 3: "\<forall>x y. 0 < cell (labels s) x y \<longrightarrow>
            cell (labels (ws_body a c s1)) x y = cell (labels s) x y
            \<and> cell (labels sf) x y = cell (labels s) x y"
  proof (intro allI impI)
    fix x y assume pos: "0 < cell (labels s) x y"
    then have p: "0 < data (labels s) (x, y)" by (simp add: cell_def)
    have "data (labels (ws_loop cmp a s)) (x, y) = data (labels s) (x, y)"
      using inv p by (rule final_label)
    then have "cell (labels sf) x y = cell (labels s) x y"
      by (simp add: sf ws_reach_loop [OF assms(2)] cell_def)
    with pl(4) [rule_format, OF p]
    show "cell (labels (ws_body a c s1)) x y = cell (labels s) x y
            \<and> cell (labels sf) x y = cell (labels s) x y"
      by (simp add: cell_def)
  qed
  from 1 2 3 show ?thesis by blast
qed

subsection \<open>No-data cells\<close>

lemma int_upt_iff: "z \<in> set (map int [m..<n]) \<longleftrightarrow> int m \<le> z \<and> z < int n"
proof
  assume "z \<in> set (map int [m..<n])"
  then show "int m \<le> z \<and> z < int n" by auto
next
  assume z: "int m \<le> z \<and> z < int n"
  then have "m \<le> nat z" "nat z < n" "z = int (nat z)" by auto
  then have "nat z \<in> set [m..<n]" by simp
  then have "int (nat z) \<in> set (map int [m..<n])" by (simp only: set_map) (rule imageI)
  with \<open>z = int (nat z)\<close> show "z \<in> set (map int [m..<n])" by simp
qed

lemma seed_closes_boundary:
  assumes "in_grid e x y"
    and "x = 0 \<or> y = 0 \<or> x = int (width e) - 1 \<or> y = int (height e) - 1"
  shows "closed_2d (seed (ws_start e l)) (x, y)"
proof (cases "y = 0 \<or> y = int (height e) - 1")
  case True
  from assms(1) have "x \<in> set (map int [0..<width e])"
    by (simp only: int_upt_iff) (simp add: in_grid_def)
  with True show ?thesis unfolding seed_closed by blast
next
  case False
  with assms have "int 1 \<le> y \<and> y < int (height e - 1)" and x: "x = 0 \<or> x = int (width e) - 1"
    by (auto simp: in_grid_def)
  then have "y \<in> set (map int [1..<height e - 1])" by (simp only: int_upt_iff)
  with x show ?thesis unfolding seed_closed by blast
qed

text \<open>
  C1, as the code has it: a cell whose input elevation is the no-data value is never given
  a new label from the counter. In every pass of a run its label changes only when it is
  a neighbour, not closed so far, of the popped cell, whose label it then takes, and its
  elevation changes only then and only with \<^verbatim>\<open>alter_elevations\<close>. When such a cell lies
  on the outer boundary of the grid, its label after the call is the label sentinel and
  its elevation is its input elevation.
\<close>

theorem no_data_cells:
  assumes "find_watersheds cmp elevs labs a = Inr sf"
    and "in_grid elevs x y" and "cell elevs x y = no_data elevs"
  shows "((x = 0 \<or> y = 0 \<or> x = int (width elevs) - 1 \<or> y = int (height elevs) - 1) \<longrightarrow>
            cell (labels sf) x y = no_data (labels sf)
            \<and> cell (elevations sf) x y = cell elevs x y)
     \<and> (\<forall>s c s1. ws_reach cmp a (seed (ws_start elevs labs)) s
                  \<and> next_cell cmp s = Some (c, s1) \<longrightarrow>
          (cell (labels (ws_body a c s1)) x y \<noteq> cell (labels s) x y \<longrightarrow>
             (\<exists>n. 1 \<le> n \<and> n \<le> 8 \<and> (x, y) = nb c n) \<and> \<not> closed_2d s (x, y)
             \<and> cell (labels (ws_body a c s1)) x y
                 = cell (labels (ws_body a c s1)) (cx c) (cy c))
          \<and> (cell (elevations (ws_body a c s1)) x y \<noteq> cell (elevations s) x y \<longrightarrow>
               a \<and> \<not> closed_2d s (x, y)))"
proof -
  let ?s0 = "seed (ws_start elevs labs)"
  let ?p = "(x, y)"
  from assms(1) have g: "\<not> ((0 < width elevs \<and> height elevs = 0)
                            \<or> (width elevs = 0 \<and> 2 < height elevs))"
    and sf: "sf = ws_loop cmp a ?s0"
    by (simp_all add: find_watersheds_Inr)
  have inv0: "ws_inv elevs a ?s0" by (rule ws_inv_seed [OF g])
  have nd: "data elevs ?p = no_data elevs" using assms(3) by (simp add: cell_def)
  have keep: "data (labels (ws_body a c s1)) ?p = data (labels s) ?p"
    if inv: "ws_inv elevs a s" and nc: "next_cell cmp s = Some (c, s1)"
      and pc: "?p = (cx c, cy c)" for s c s1
  proof -
    from inv have N: "data elevs ?p = no_data elevs \<and> data (labels s) ?p = - 1
              \<longrightarrow> data (elevations s) ?p = no_data elevs"
      and nde: "no_data (elevations s) = no_data elevs"
      unfolding ws_inv_def by blast+
    with nd have "\<not> (data (labels s) (cx c, cy c) = - 1
                    \<and> data (elevations s) (cx c, cy c) \<noteq> no_data (elevations s))"
      using pc by auto
    with pass_labels(2) [OF inv nc] pc show ?thesis by simp
  qed
  have 1: "(x = 0 \<or> y = 0 \<or> x = int (width elevs) - 1 \<or> y = int (height elevs) - 1) \<longrightarrow>
            cell (labels sf) x y = no_data (labels sf)
            \<and> cell (elevations sf) x y = cell elevs x y"
  proof
    assume b: "x = 0 \<or> y = 0 \<or> x = int (width elevs) - 1 \<or> y = int (height elevs) - 1"
    have c0: "closed_2d ?s0 ?p" using assms(2) b by (rule seed_closes_boundary)
    have "ws_inv elevs a sf \<and> closed_2d sf ?p \<and> data (labels sf) ?p = - 1"
      unfolding sf
    proof (rule ws_loop_invariant [where P = "\<lambda>t. ws_inv elevs a t \<and> closed_2d t ?p
                \<and> data (labels t) ?p = - 1"])
      show "ws_inv elevs a ?s0 \<and> closed_2d ?s0 ?p \<and> data (labels ?s0) ?p = - 1"
        using inv0 c0 by simp
    next
      fix t c t1
      assume t: "ws_inv elevs a t \<and> closed_2d t ?p \<and> data (labels t) ?p = - 1"
        and nc: "next_cell cmp t = Some (c, t1)"
      have "data (labels (ws_body a c t1)) ?p = data (labels t) ?p"
      proof (cases "?p = (cx c, cy c)")
        case True
        with t nc show ?thesis by (intro keep) simp_all
      next
        case False
        with pass_labels(3) [OF _ nc, of elevs a, rule_format, of ?p] t show ?thesis by blast
      qed
      with t ws_body_inv [OF _ nc, of elevs a] pass_closed(1) [OF nc, of ?p a]
      show "ws_inv elevs a (ws_body a c t1) \<and> closed_2d (ws_body a c t1) ?p
                \<and> data (labels (ws_body a c t1)) ?p = - 1"
        by simp
    qed
    moreover from this have "no_data (labels sf) = - 1" by (simp add: ws_inv_def)
    moreover have "data (elevations sf) ?p = data (elevations ?s0) ?p"
      unfolding sf using c0 by (rule final_closed [THEN conjunct2])
    ultimately show "cell (labels sf) x y = no_data (labels sf)
            \<and> cell (elevations sf) x y = cell elevs x y"
      by (simp add: cell_def)
  qed
  have 2: "\<forall>s c s1. ws_reach cmp a ?s0 s \<and> next_cell cmp s = Some (c, s1) \<longrightarrow>
          (cell (labels (ws_body a c s1)) x y \<noteq> cell (labels s) x y \<longrightarrow>
             (\<exists>n. 1 \<le> n \<and> n \<le> 8 \<and> (x, y) = nb c n) \<and> \<not> closed_2d s (x, y)
             \<and> cell (labels (ws_body a c s1)) x y
                 = cell (labels (ws_body a c s1)) (cx c) (cy c))
          \<and> (cell (elevations (ws_body a c s1)) x y \<noteq> cell (elevations s) x y \<longrightarrow>
               a \<and> \<not> closed_2d s (x, y))"
  proof (intro allI impI, elim conjE)
    fix s c s1
    assume r: "ws_reach cmp a ?s0 s" and nc: "next_cell cmp s = Some (c, s1)"
    have inv: "ws_inv elevs a s" using r inv0 by (rule ws_reach_inv)
    have l: "cell (labels (ws_body a c s1)) x y \<noteq> cell (labels s) x y \<longrightarrow>
             (\<exists>n. 1 \<le> n \<and> n \<le> 8 \<and> (x, y) = nb c n) \<and> \<not> closed_2d s (x, y)
             \<and> cell (labels (ws_body a c s1)) x y
                 = cell (labels (ws_body a c s1)) (cx c) (cy c)"
    proof
      assume d: "cell (labels (ws_body a c s1)) x y \<noteq> cell (labels s) x y"
      then have "?p \<noteq> (cx c, cy c)" using keep [OF inv nc] by (auto simp: cell_def)
      with d pass_labels(3) [OF inv nc, rule_format, of ?p]
      show "(\<exists>n. 1 \<le> n \<and> n \<le> 8 \<and> (x, y) = nb c n) \<and> \<not> closed_2d s (x, y)
             \<and> cell (labels (ws_body a c s1)) x y
                 = cell (labels (ws_body a c s1)) (cx c) (cy c)"
        by (simp add: cell_def)
    qed
    have e: "cell (elevations (ws_body a c s1)) x y \<noteq> cell (elevations s) x y \<longrightarrow>
               a \<and> \<not> closed_2d s (x, y)"
      using ws_body_elevations_False [OF nc] pass_closed(2) [OF nc, of ?p a]
      by (cases a) (auto simp: cell_def)
    from l e
    show "(cell (labels (ws_body a c s1)) x y \<noteq> cell (labels s) x y \<longrightarrow>
             (\<exists>n. 1 \<le> n \<and> n \<le> 8 \<and> (x, y) = nb c n) \<and> \<not> closed_2d s (x, y)
             \<and> cell (labels (ws_body a c s1)) x y
                 = cell (labels (ws_body a c s1)) (cx c) (cy c))
          \<and> (cell (elevations (ws_body a c s1)) x y \<noteq> cell (elevations s) x y \<longrightarrow>
               a \<and> \<not> closed_2d s (x, y))"
      by blast
  qed
  from 1 2 show ?thesis by blast
qed

subsection \<open>The number of passes\<close>

lemma visit_work: "ws_work (visit a c n s) = ws_work s"
proof (cases "target c n s")
  case False
  then show ?thesis by (simp add: visit_skip)
next
  case True
  define p where "p = nb c n"
  from True have mem: "p \<in> unclosed s"
    by (auto simp: unclosed_def target_def in_grid_def p_def nb_def)
  have un: "unclosed (visit a c n s) = unclosed s - {p}"
    using True by (auto simp: unclosed_def visit_closed p_def)
  have len: "length (open_pq (visit a c n s)) + length (meander (visit a c n s))
               = length (open_pq s) + length (meander s) + 1"
    using True by (simp add: visit_open_pq visit_meander)
  have "card (unclosed s - {p}) + 1 = card (unclosed s)"
    using mem card_Suc_Diff1 [of "unclosed s" p] by simp
  with un len show ?thesis by (simp add: ws_work_def)
qed

lemma ws_body_work: "ws_work (ws_body a c s) = ws_work s + 1"
proof -
  let ?s3 = "label_cell c (s\<lparr>processed_cells := processed_cells s + 1\<rparr>)"
  have "ws_work (fold (visit a c) [1..<9] ?s3) = ws_work ?s3"
    by (rule fold_preserve) (rule visit_work)
  moreover have "ws_work ?s3 = ws_work s + 1"
    by (simp add: ws_work_def unclosed_def)
  ultimately show ?thesis by (simp add: ws_body_def Let_def)
qed

lemma next_cell_work: "next_cell cmp s = Some (c, s1) \<Longrightarrow> ws_work s1 + 1 = ws_work s"
proof (cases "meander s")
  case (Cons m rest)
  assume "next_cell cmp s = Some (c, s1)"
  with Cons show ?thesis by (auto simp: next_cell_def ws_work_def unclosed_def)
next
  case Nil
  assume nc: "next_cell cmp s = Some (c, s1)"
  with Nil obtain d ds where q: "open_pq s = d # ds"
    by (auto simp: next_cell_def split: list.splits)
  have "pq_top cmp d ds \<in> set (d # ds)" by (rule pq_top_in)
  then have "length (remove1 (pq_top cmp d ds) (d # ds)) + 1 = length (d # ds)"
    by (simp only: length_remove1 if_True) simp
  with nc Nil q show ?thesis
    by (auto simp: next_cell_def ws_work_def unclosed_def Let_def simp del: remove1.simps)
qed

lemma ws_loop_work: "ws_work (ws_loop cmp a s) = ws_work s"
proof (rule ws_loop_invariant [where P = "\<lambda>t. ws_work t = ws_work s"])
  show "ws_work s = ws_work s" by simp
next
  fix t c t1
  assume "ws_work t = ws_work s" and "next_cell cmp t = Some (c, t1)"
  with next_cell_work [of cmp t c t1] ws_body_work [of a c t1]
  show "ws_work (ws_body a c t1) = ws_work s" by simp
qed

lemma length_concat_pairs: "length (concat (map (\<lambda>x. [f x, g x]) xs)) = 2 * length xs"
  by (induction xs) simp_all

lemma length_seed_entries: "length (seed_entries e) = 2 * width e + 2 * (height e - 2)"
  unfolding seed_entries_def
  by (simp only: length_append length_concat_pairs length_map length_upt)

lemma card_unclosed: "card (unclosed s) \<le> width (elevations s) * height (elevations s)"
proof -
  have "card (unclosed s)
          \<le> card ({0..<int (width (elevations s))} \<times> {0..<int (height (elevations s))})"
    by (rule card_mono) (auto simp: unclosed_def)
  then show ?thesis by (simp add: card_cartesian_product)
qed

text \<open>
  C10: the main loop ends from every state \<open>s0\<close>, with the open queue and the meander
  stack empty, and the passes it has counted by then are at most those counted in \<open>s0\<close>
  plus the entries waiting in \<open>s0\<close> plus the cells of the grid not closed in \<open>s0\<close>. On
  every grid on which the seeding stays inside the grid, \<open>find_watersheds\<close> returns after
  at most \<open>2 * width + 2 * (height - 2) + width * height\<close> passes; at every head of the main
  loop of the run the cell of the entry that is popped is closed, and every entry that
  the pass pushes is the entry of a cell that was not closed before the pass and is
  closed after it.
\<close>

theorem main_loop_terminates:
  "open_pq (ws_loop cmp a s0) = [] \<and> meander (ws_loop cmp a s0) = []
   \<and> processed_cells (ws_loop cmp a s0)
       \<le> processed_cells s0 + length (open_pq s0) + length (meander s0) + card (unclosed s0)
   \<and> (\<not> ((0 < width elevs \<and> height elevs = 0) \<or> (width elevs = 0 \<and> 2 < height elevs)) \<longrightarrow>
        (\<exists>s. find_watersheds cmp elevs labs a = Inr s \<and> open_pq s = [] \<and> meander s = []
           \<and> processed_cells s
               \<le> 2 * width elevs + 2 * (height elevs - 2) + width elevs * height elevs
           \<and> (\<forall>t c t1. ws_reach cmp a (seed (ws_start elevs labs)) t
                        \<and> next_cell cmp t = Some (c, t1) \<longrightarrow>
                 closed_2d t (cx c, cy c)
                 \<and> (\<forall>e \<in> set (pushed a c t1). \<not> closed_2d t (cx e, cy e)
                        \<and> closed_2d (ws_body a c t1) (cx e, cy e)))))"
proof -
  have "next_cell cmp (ws_loop cmp a s0) = None" by (rule ws_loop_ends)
  then have ends: "open_pq (ws_loop cmp a s0) = [] \<and> meander (ws_loop cmp a s0) = []"
    by (simp add: next_cell_None)
  have "processed_cells (ws_loop cmp a s0) \<le> ws_work (ws_loop cmp a s0)"
    by (simp add: ws_work_def)
  also have "\<dots> = ws_work s0" by (rule ws_loop_work)
  finally have any: "processed_cells (ws_loop cmp a s0)
       \<le> processed_cells s0 + length (open_pq s0) + length (meander s0) + card (unclosed s0)"
    by (simp add: ws_work_def)
  have run: "\<exists>s. find_watersheds cmp elevs labs a = Inr s \<and> open_pq s = [] \<and> meander s = []
           \<and> processed_cells s
               \<le> 2 * width elevs + 2 * (height elevs - 2) + width elevs * height elevs
           \<and> (\<forall>t c t1. ws_reach cmp a (seed (ws_start elevs labs)) t
                        \<and> next_cell cmp t = Some (c, t1) \<longrightarrow>
                 closed_2d t (cx c, cy c)
                 \<and> (\<forall>e \<in> set (pushed a c t1). \<not> closed_2d t (cx e, cy e)
                        \<and> closed_2d (ws_body a c t1) (cx e, cy e)))"
    if g: "\<not> ((0 < width elevs \<and> height elevs = 0) \<or> (width elevs = 0 \<and> 2 < height elevs))"
  proof -
    let ?s0 = "seed (ws_start elevs labs)"
    let ?sf = "ws_loop cmp a ?s0"
    have r: "find_watersheds cmp elevs labs a = Inr ?sf"
      using g by (simp add: find_watersheds_Inr)
    note fin = find_watersheds_inv [OF r]
    have "processed_cells ?sf \<le> ws_work ?sf" by (simp add: ws_work_def)
    also have "\<dots> = ws_work ?s0" by (rule ws_loop_work)
    also have "\<dots> = length (seed_entries elevs) + card (unclosed ?s0)"
      by (simp add: ws_work_def seed_open)
    also have "\<dots> \<le> 2 * width elevs + 2 * (height elevs - 2) + width elevs * height elevs"
      using card_unclosed [of ?s0] by (simp add: length_seed_entries)
    finally have bound: "processed_cells ?sf
        \<le> 2 * width elevs + 2 * (height elevs - 2) + width elevs * height elevs" .
    have disc: "\<forall>t c t1. ws_reach cmp a ?s0 t \<and> next_cell cmp t = Some (c, t1) \<longrightarrow>
                   closed_2d t (cx c, cy c)
                   \<and> (\<forall>e \<in> set (pushed a c t1). \<not> closed_2d t (cx e, cy e)
                          \<and> closed_2d (ws_body a c t1) (cx e, cy e))"
    proof (intro allI impI, elim conjE)
      fix t c t1
      assume t: "ws_reach cmp a ?s0 t" and nc: "next_cell cmp t = Some (c, t1)"
      have "ws_inv elevs a t" using t by (rule ws_reach_inv) (rule ws_inv_seed [OF g])
      then have "\<forall>e \<in> queued t. closed_2d t (cx e, cy e)" by (simp add: ws_inv_def)
      with next_cell_queued(1) [OF nc] have "closed_2d t (cx c, cy c)" by blast
      moreover have "\<forall>e \<in> set (pushed a c t1). \<not> closed_2d t (cx e, cy e)
                          \<and> closed_2d (ws_body a c t1) (cx e, cy e)"
        using pushed_props(2,3) [of _ a c t1] next_cell_queued(5) [OF nc] by auto
      ultimately show "closed_2d t (cx c, cy c)
                   \<and> (\<forall>e \<in> set (pushed a c t1). \<not> closed_2d t (cx e, cy e)
                          \<and> closed_2d (ws_body a c t1) (cx e, cy e))"
        by blast
    qed
    from r fin(2,3) bound disc show ?thesis by blast
  qed
  from ends any run show ?thesis by blast
qed

subsection \<open>A run on the grid with a no-data cell in the middle\<close>

lemma upt_9: "[1..<9] = [1, 2, 3, 4, 5, 6, 7, 8]"
  by (simp add: upt_rec)

lemma hole3_seed_entries: "seed_entries hole3 =
  [\<lparr>cx = 0, cy = 0, cz = 1\<rparr>, \<lparr>cx = 0, cy = 2, cz = 1\<rparr>,
   \<lparr>cx = 1, cy = 0, cz = 1\<rparr>, \<lparr>cx = 1, cy = 2, cz = 1\<rparr>,
   \<lparr>cx = 2, cy = 0, cz = 1\<rparr>, \<lparr>cx = 2, cy = 2, cz = 1\<rparr>,
   \<lparr>cx = 0, cy = 1, cz = 1\<rparr>, \<lparr>cx = 2, cy = 1, cz = 1\<rparr>]"
  by (simp add: seed_entries_def hole3_def cell_def upt_rec)

lemma hole3_Inr:
  "find_watersheds cmp_z hole3 no_labels a = Inr (ws_loop cmp_z a hole3_seeded)"
  by (simp add: find_watersheds_def hole3_def hole3_seeded_def)

lemma hole3_next: "next_cell cmp_z hole3_seeded = Some (hole3_corner, hole3_popped)"
  by (simp add: next_cell_def hole3_seeded_def hole3_popped_def hole3_corner_def
        seed_open hole3_seed_entries cmp_z_def)

lemma hole3_pass1_fields:
  "data (labels hole3_pass1) (0, 0) = 1"
  "data (labels hole3_pass1) (1, 1) = 1"
  "data (elevations hole3_pass1) (1, 1) = 1"
  "closed_2d hole3_pass1 (1, 1)"
  "meander hole3_pass1 = [hole3_middle]"
  "open_pq hole3_pass1 = open_pq hole3_popped"
  unfolding hole3_pass1_def hole3_popped_def hole3_seeded_def hole3_corner_def hole3_middle_def
  by (simp_all add: ws_body_def upt_9 label_cell_def visit_def dx_def dy_def in_grid_def
        seed_closed Let_def cell_def put_def hole3_def upt_rec)

lemma hole3_pushed: "pushed True hole3_corner hole3_popped = [hole3_middle]"
proof -
  have m: "meander hole3_popped = []"
    by (simp add: hole3_popped_def hole3_seeded_def)
  have "pushed True hole3_corner hole3_popped
          = take (length (meander hole3_pass1) - length (meander hole3_popped))
              (meander hole3_pass1)
            @ drop (length (open_pq hole3_popped)) (open_pq hole3_pass1)"
    by (simp add: pushed_def Let_def hole3_pass1_def)
  also have "\<dots> = [hole3_middle]"
    by (simp add: hole3_pass1_fields(5,6) m)
  finally show ?thesis .
qed

lemma hole3_reach: "ws_reach cmp_z True hole3_seeded hole3_pass1"
  unfolding hole3_pass1_def
  by (rule ws_reach.pass [OF ws_reach.start hole3_next])

lemma hole3_next2:
  "next_cell cmp_z hole3_pass1
     = Some (hole3_middle, hole3_pass1\<lparr>meander := [], pitc := pitc hole3_pass1 + 1\<rparr>)"
  by (simp add: next_cell_def hole3_pass1_fields(5))

lemma hole3_inv: "ws_inv hole3 True hole3_pass1"
  using hole3_reach unfolding hole3_seeded_def
  by (rule ws_reach_inv) (rule ws_inv_seed, simp add: hole3_def)

text \<open>
  C1 as stated fails: in the run on \<open>hole3\<close> with \<^verbatim>\<open>alter_elevations\<close> the cell
  \<open>(1, 1)\<close>, whose input elevation is the no-data value, ends with the label 1 and with
  the elevation 1.
\<close>

theorem no_data_cell_labelled:
  "\<not> isl (find_watersheds cmp_z hole3 no_labels True)
   \<and> in_grid hole3 1 1 \<and> cell hole3 1 1 = no_data hole3
   \<and> no_data (labels (projr (find_watersheds cmp_z hole3 no_labels True))) = - 1
   \<and> cell (labels (projr (find_watersheds cmp_z hole3 no_labels True))) 1 1 = 1
   \<and> cell hole3 1 1 = - 9999
   \<and> cell (elevations (projr (find_watersheds cmp_z hole3 no_labels True))) 1 1 = 1"
proof -
  let ?sf = "ws_loop cmp_z True hole3_seeded"
  have fin: "?sf = ws_loop cmp_z True hole3_pass1"
    using ws_reach_loop [OF hole3_reach] by simp
  have "ws_inv hole3 True ?sf"
    using find_watersheds_inv(1) [OF hole3_Inr] .
  then have nd: "no_data (labels ?sf) = - 1" by (simp add: ws_inv_def)
  have "data (labels (ws_loop cmp_z True hole3_pass1)) (1, 1) = data (labels hole3_pass1) (1, 1)"
    using hole3_inv by (rule final_label) (simp add: hole3_pass1_fields)
  then have l: "cell (labels ?sf) 1 1 = 1"
    by (simp add: fin cell_def hole3_pass1_fields)
  have "data (elevations (ws_loop cmp_z True hole3_pass1)) (1, 1)
          = data (elevations hole3_pass1) (1, 1)"
    using hole3_pass1_fields(4) by (rule final_closed [THEN conjunct2])
  then have e: "cell (elevations ?sf) 1 1 = 1"
    by (simp add: fin cell_def hole3_pass1_fields)
  have "in_grid hole3 1 1 \<and> cell hole3 1 1 = no_data hole3 \<and> cell hole3 1 1 = - 9999"
    by (simp add: hole3_def in_grid_def cell_def)
  with nd l e show ?thesis by (simp add: hole3_Inr)
qed

subsection \<open>The claims on the run on \<open>hole3\<close>\<close>

theorem find_watersheds_keeps_elevations_witness:
  "find_watersheds cmp_z hole3 no_labels False = Inr (ws_loop cmp_z False hole3_seeded)
   \<and> elevations (ws_loop cmp_z False hole3_seeded) = hole3"
  using find_watersheds_keeps_elevations [OF hole3_Inr [of False]] hole3_Inr [of False]
  by simp

lemma hole3_path: "discovery_path cmp_z True hole3_seeded [hole3_corner, hole3_middle]"
proof -
  have "hole3_corner \<in> set (open_pq hole3_seeded)"
    by (simp add: hole3_seeded_def seed_open hole3_seed_entries hole3_corner_def)
  then have "discovery_path cmp_z True hole3_seeded ([] @ [hole3_corner])"
    by (simp add: discovery_path.seeded)
  from discovery_path.discovered [OF this ws_reach.start hole3_next, of hole3_middle]
  show ?thesis by (simp add: hole3_pushed)
qed

theorem flood_fill_monotone_witness:
  "find_watersheds cmp_z hole3 no_labels True = Inr (ws_loop cmp_z True hole3_seeded)
   \<and> cell hole3 1 1 \<le> cell (elevations (ws_loop cmp_z True hole3_seeded)) 1 1
   \<and> discovery_path cmp_z True hole3_seeded [hole3_corner, hole3_middle]
   \<and> sorted (map cz [hole3_corner, hole3_middle])
   \<and> cz hole3_corner = cell hole3 0 0"
proof -
  note m = flood_fill_monotone [OF hole3_Inr [of True], folded hole3_seeded_def]
  from m have "cell hole3 1 1 \<le> cell (elevations (ws_loop cmp_z True hole3_seeded)) 1 1"
    by blast
  moreover from m hole3_path
  have "sorted (map cz [hole3_corner, hole3_middle])
        \<and> cz (hd [hole3_corner, hole3_middle])
            = cell hole3 (cx (hd [hole3_corner, hole3_middle])) (cy (hd [hole3_corner, hole3_middle]))"
    by blast
  ultimately show ?thesis
    using hole3_Inr [of True] hole3_path by (simp add: hole3_corner_def)
qed

lemma hole3_seeded_fields:
  "data (labels hole3_seeded) p = - 1" "closed_2d hole3_seeded (0, 0)"
  "\<not> closed_2d hole3_seeded (1, 1)" "clabel hole3_seeded = 1"
  "data (elevations hole3_seeded) (1, 1) = - 9999"
  by (simp_all add: hole3_seeded_def seed_closed hole3_def upt_rec)

theorem label_assignment_witness:
  "find_watersheds cmp_z hole3 no_labels True = Inr (ws_loop cmp_z True hole3_seeded)
   \<and> ws_reach cmp_z True hole3_seeded hole3_pass1
   \<and> next_cell cmp_z hole3_seeded = Some (hole3_corner, hole3_popped)
   \<and> clabel hole3_seeded = 1
   \<and> cell (labels hole3_seeded) 0 0 = - 1 \<and> cell (labels hole3_pass1) 0 0 = 1
   \<and> clabel hole3_pass1 = 2
   \<and> cell (labels hole3_seeded) 1 1 = - 1
   \<and> cell (labels hole3_pass1) 1 1 = cell (labels hole3_pass1) 0 0
   \<and> cell (labels (ws_loop cmp_z True hole3_seeded)) 0 0 = 1"
proof -
  note a1 = label_assignment [OF hole3_Inr [of True]
      ws_reach.start [of cmp_z True "seed (ws_start hole3 no_labels)"]
      hole3_next [unfolded hole3_seeded_def], folded hole3_seeded_def hole3_pass1_def]
  note a2 = label_assignment [OF hole3_Inr [of True] hole3_reach [unfolded hole3_seeded_def]
      hole3_next2, folded hole3_seeded_def]
  have l: "cell (labels hole3_seeded) 0 0 = - 1" "cell (labels hole3_seeded) 1 1 = - 1"
    "cell (labels hole3_pass1) 0 0 = 1" "cell (labels hole3_pass1) 1 1 = 1"
    by (simp_all add: cell_def hole3_seeded_fields hole3_pass1_fields)
  from a1 have ch: "\<And>x y. cell (labels hole3_pass1) x y \<noteq> cell (labels hole3_seeded) x y \<Longrightarrow>
          ((x, y) = (cx hole3_corner, cy hole3_corner)
             \<and> clabel hole3_pass1 = clabel hole3_seeded + 1)
          \<or> (\<not> closed_2d hole3_seeded (x, y)
              \<and> cell (labels hole3_pass1) x y
                  = cell (labels hole3_pass1) (cx hole3_corner) (cy hole3_corner))"
    by blast
  from ch [of 0 0] l have c2: "clabel hole3_pass1 = 2"
    by (simp add: hole3_seeded_fields hole3_corner_def)
  from ch [of 1 1] l have i: "cell (labels hole3_pass1) 1 1 = cell (labels hole3_pass1) 0 0"
    by (simp add: hole3_corner_def)
  from a2 l have f: "cell (labels (ws_loop cmp_z True hole3_seeded)) 0 0 = 1"
    by simp
  from a1 have "clabel hole3_seeded = 1" by blast
  with c2 i f l hole3_Inr [of True] hole3_reach hole3_next show ?thesis by simp
qed

theorem no_data_cells_witness:
  "find_watersheds cmp_z corner3 no_labels True
     = Inr (ws_loop cmp_z True (seed (ws_start corner3 no_labels)))
   \<and> in_grid corner3 0 0 \<and> cell corner3 0 0 = no_data corner3
   \<and> cell (labels (ws_loop cmp_z True (seed (ws_start corner3 no_labels)))) 0 0
       = no_data (labels (ws_loop cmp_z True (seed (ws_start corner3 no_labels))))
   \<and> cell (elevations (ws_loop cmp_z True (seed (ws_start corner3 no_labels)))) 0 0
       = cell corner3 0 0
   \<and> in_grid hole3 1 1 \<and> cell hole3 1 1 = no_data hole3
   \<and> cell (labels hole3_pass1) 1 1 \<noteq> cell (labels hole3_seeded) 1 1
   \<and> \<not> closed_2d hole3_seeded (1, 1)
   \<and> cell (labels hole3_pass1) 1 1 = cell (labels hole3_pass1) 0 0"
proof -
  have r: "find_watersheds cmp_z corner3 no_labels True
     = Inr (ws_loop cmp_z True (seed (ws_start corner3 no_labels)))"
    by (simp add: find_watersheds_def corner3_def)
  have g: "in_grid corner3 0 0" "cell corner3 0 0 = no_data corner3"
    "in_grid hole3 1 1" "cell hole3 1 1 = no_data hole3"
    by (simp_all add: corner3_def hole3_def in_grid_def cell_def)
  from no_data_cells [OF r g(1,2)]
  have b: "cell (labels (ws_loop cmp_z True (seed (ws_start corner3 no_labels)))) 0 0
       = no_data (labels (ws_loop cmp_z True (seed (ws_start corner3 no_labels))))
   \<and> cell (elevations (ws_loop cmp_z True (seed (ws_start corner3 no_labels)))) 0 0
       = cell corner3 0 0"
    by blast
  have d: "cell (labels hole3_pass1) 1 1 \<noteq> cell (labels hole3_seeded) 1 1"
    by (simp add: cell_def hole3_seeded_fields hole3_pass1_fields)
  from no_data_cells [OF hole3_Inr [of True] g(3,4), folded hole3_seeded_def]
    ws_reach.start [of cmp_z True hole3_seeded] hole3_next
  have "cell (labels (ws_body True hole3_corner hole3_popped)) 1 1
          \<noteq> cell (labels hole3_seeded) 1 1 \<longrightarrow>
        \<not> closed_2d hole3_seeded (1, 1)
        \<and> cell (labels (ws_body True hole3_corner hole3_popped)) 1 1
            = cell (labels (ws_body True hole3_corner hole3_popped))
                (cx hole3_corner) (cy hole3_corner)"
    by blast
  with d have "\<not> closed_2d hole3_seeded (1, 1)
      \<and> cell (labels hole3_pass1) 1 1 = cell (labels hole3_pass1) 0 0"
    by (simp add: hole3_pass1_def hole3_corner_def)
  with r g b d show ?thesis by simp
qed

theorem main_loop_terminates_witness:
  "find_watersheds cmp_z hole3 no_labels True = Inr (ws_loop cmp_z True hole3_seeded)
   \<and> open_pq (ws_loop cmp_z True hole3_seeded) = []
   \<and> meander (ws_loop cmp_z True hole3_seeded) = []
   \<and> processed_cells (ws_loop cmp_z True hole3_seeded) \<le> 17
   \<and> closed_2d hole3_seeded (0, 0)
   \<and> hole3_middle \<in> set (pushed True hole3_corner hole3_popped)
   \<and> \<not> closed_2d hole3_seeded (1, 1) \<and> closed_2d hole3_pass1 (1, 1)"
proof -
  have g: "\<not> ((0 < width hole3 \<and> height hole3 = 0) \<or> (width hole3 = 0 \<and> 2 < height hole3))"
    by (simp add: hole3_def)
  from g main_loop_terminates [of cmp_z True hole3_seeded hole3 no_labels,
      folded hole3_seeded_def]
  obtain s where s: "find_watersheds cmp_z hole3 no_labels True = Inr s"
    and e: "open_pq s = []" "meander s = []"
    and b: "processed_cells s \<le> 2 * width hole3 + 2 * (height hole3 - 2) + width hole3 * height hole3"
    and d: "\<forall>t c t1. ws_reach cmp_z True hole3_seeded t \<and> next_cell cmp_z t = Some (c, t1) \<longrightarrow>
                 closed_2d t (cx c, cy c)
                 \<and> (\<forall>e \<in> set (pushed True c t1). \<not> closed_2d t (cx e, cy e)
                        \<and> closed_2d (ws_body True c t1) (cx e, cy e))"
    by blast
  from s have s': "s = ws_loop cmp_z True hole3_seeded" by (simp add: hole3_Inr)
  have m: "hole3_middle \<in> set (pushed True hole3_corner hole3_popped)"
    by (simp add: hole3_pushed)
  from d ws_reach.start [of cmp_z True hole3_seeded] hole3_next
  have "closed_2d hole3_seeded (cx hole3_corner, cy hole3_corner)
        \<and> (\<forall>e \<in> set (pushed True hole3_corner hole3_popped).
              \<not> closed_2d hole3_seeded (cx e, cy e)
              \<and> closed_2d (ws_body True hole3_corner hole3_popped) (cx e, cy e))"
    by blast
  with m have "closed_2d hole3_seeded (0, 0) \<and> \<not> closed_2d hole3_seeded (1, 1)
      \<and> closed_2d hole3_pass1 (1, 1)"
    by (auto simp: hole3_corner_def hole3_middle_def hole3_pass1_def)
  with s e b m show ?thesis by (simp add: s' hole3_def)
qed

subsection \<open>The seeding of the boundary\<close>

text \<open>On a grid at least two cells wide and two cells high the seeding pushes every cell
  of the outer boundary once and no other cell, each entry with the elevation of its
  cell, and closes exactly these cells.\<close>

lemma seed_entries_cells:
  "map (\<lambda>c. (cx c, cy c)) (seed_entries e) =
     concat (map (\<lambda>x. [(x, 0), (x, int (height e) - 1)]) (map int [0..<width e]))
     @ concat (map (\<lambda>y. [(0, y), (int (width e) - 1, y)]) (map int [1..<height e - 1]))"
  by (simp add: seed_entries_def map_concat comp_def)

lemma distinct_pairs_x:
  "distinct xs \<Longrightarrow> a \<noteq> b \<Longrightarrow> distinct (concat (map (\<lambda>x. [(x, a), (x, b)]) xs))"
  by (induction xs) auto

lemma distinct_pairs_y:
  "distinct ys \<Longrightarrow> a \<noteq> b \<Longrightarrow> distinct (concat (map (\<lambda>y. [(a, y), (b, y)]) ys))"
  by (induction ys) auto

lemma seed_once:
  assumes "2 \<le> width e" and "2 \<le> height e"
  shows "distinct (map (\<lambda>c. (cx c, cy c)) (seed_entries e))"
    and "set (map (\<lambda>c. (cx c, cy c)) (seed_entries e)) = boundary e"
    and "\<forall>c \<in> set (seed_entries e). cz c = cell e (cx c) (cy c)"
    and "closed_2d (seed (ws_start e l)) p \<longleftrightarrow> p \<in> boundary e"
proof -
  let ?xs = "map int [0..<width e]" and ?ys = "map int [1..<height e - 1]"
  have dx: "distinct ?xs" and dy: "distinct ?ys" by (simp_all add: distinct_map)
  have h: "(0::int) \<noteq> int (height e) - 1" and w: "(0::int) \<noteq> int (width e) - 1"
    using assms by auto
  have "set (concat (map (\<lambda>x. [(x, 0), (x, int (height e) - 1)]) ?xs))
          \<inter> set (concat (map (\<lambda>y. [(0, y), (int (width e) - 1, y)]) ?ys)) = {}"
    by auto
  with distinct_pairs_x [OF dx h] distinct_pairs_y [OF dy w]
  show "distinct (map (\<lambda>c. (cx c, cy c)) (seed_entries e))"
    unfolding seed_entries_cells by simp
  have mem: "\<And>p. p \<in> boundary e \<longleftrightarrow>
      (\<exists>x \<in> set ?xs. p = (x, 0) \<or> p = (x, int (height e) - 1))
      \<or> (\<exists>y \<in> set ?ys. p = (0, y) \<or> p = (int (width e) - 1, y))"
  proof -
    fix p :: "int \<times> int"
    obtain x y where p: "p = (x, y)" by (cases p)
    show "p \<in> boundary e \<longleftrightarrow>
      (\<exists>x \<in> set ?xs. p = (x, 0) \<or> p = (x, int (height e) - 1))
      \<or> (\<exists>y \<in> set ?ys. p = (0, y) \<or> p = (int (width e) - 1, y))"
      unfolding p boundary_def using assms
      by (simp only: int_upt_iff Bex_def) (auto simp: in_grid_def)
  qed
  show "set (map (\<lambda>c. (cx c, cy c)) (seed_entries e)) = boundary e"
    unfolding seed_entries_cells using mem by auto
  show "\<forall>c \<in> set (seed_entries e). cz c = cell e (cx c) (cy c)"
    by (simp add: seed_entries_cz cell_def)
  show "closed_2d (seed (ws_start e l)) p \<longleftrightarrow> p \<in> boundary e"
    unfolding seed_closed mem ..
qed

text \<open>
  C3 on the grid \<open>row3\<close>, three cells wide and one cell high: the seeding pushes every
  cell twice.
\<close>

theorem seed_row3_twice:
  "0 < width row3 \<and> 0 < height row3
   \<and> open_pq (seed (ws_start row3 no_labels)) =
       [\<lparr>cx = 0, cy = 0, cz = 1\<rparr>, \<lparr>cx = 0, cy = 0, cz = 1\<rparr>,
        \<lparr>cx = 1, cy = 0, cz = 1\<rparr>, \<lparr>cx = 1, cy = 0, cz = 1\<rparr>,
        \<lparr>cx = 2, cy = 0, cz = 1\<rparr>, \<lparr>cx = 2, cy = 0, cz = 1\<rparr>]"
  by (simp add: seed_open seed_entries_def row3_def cell_def upt_rec)

end
